theory Spec2Isabelle
  imports Main "HOL-Library.Sublist"
begin

section \<open>Strings\<close>

text \<open>
  JavaScript strings are modelled as \<^typ>\<open>string\<close>: one \<^typ>\<open>char\<close> per code unit, for
  code units below 256.  The two characters that cannot be written inside a literal
  get a name.
\<close>

definition sq :: char where
  "sq = CHR 0x27"

definition bs :: char where
  "bs = CHR 0x5C"

text \<open>\<^verbatim>\<open>Array.prototype.join\<close> on an array of strings.\<close>

fun join :: "string \<Rightarrow> string list \<Rightarrow> string" where
  "join sep [] = []"
| "join sep [x] = x"
| "join sep (x # y # ys) = x @ sep @ join sep (y # ys)"

text \<open>\<^verbatim>\<open>String.prototype.includes\<close>: a case-sensitive search for a contiguous substring.\<close>

definition str_includes :: "string \<Rightarrow> string \<Rightarrow> bool" where
  "str_includes s w = (\<exists>i \<in> set [0..<Suc (length s)]. take (length w) (drop i s) = w)"

text \<open>
  Numbers.  The numbers that matter here are \<^verbatim>\<open>NaN\<close> and the integer-valued ones (the form
  stores the result of \<^verbatim>\<open>parseInt\<close>).  \<open>Num i\<close> is the double nearest to the integer \<open>i\<close>, which
  is \<open>i\<close> itself whenever \<open>i\<close> is a double; an integer that rounds to \<open>2^1024\<close> or beyond is
  an infinity.  \<open>Num 0\<close> stands for both zeros, which are falsy and print alike.
\<close>

datatype number = NaN | Num int

fun numberTruthy :: "number \<Rightarrow> bool" where
  "numberTruthy NaN = False"
| "numberTruthy (Num i) = (i \<noteq> 0)"

text \<open>The decimal digits of a natural number.\<close>

definition digit :: "nat \<Rightarrow> char" where
  "digit d = ''0123456789'' ! d"

fun natToString :: "nat \<Rightarrow> string" where
  "natToString n = (if n < 10 then [digit n] else natToString (n div 10) @ [digit (n mod 10)])"

declare natToString.simps [simp del]

text \<open>
  Rounding a natural number to a double: 53 significant bits, to nearest, ties to the even
  significand.
\<close>

fun bitLength :: "nat \<Rightarrow> nat" where
  "bitLength n = (if n = 0 then 0 else Suc (bitLength (n div 2)))"

declare bitLength.simps [simp del]

definition toDouble :: "nat \<Rightarrow> nat" where
  "toDouble n =
     (let L = bitLength n in
      if L \<le> 53 then n
      else (let e = L - 53; q = n div 2 ^ e; r = n mod 2 ^ e; half = 2 ^ (e - 1);
                q' = (if r > half \<or> (r = half \<and> odd q) then q + 1 else q)
            in q' * 2 ^ e))"

text \<open>
  A decimal integer \<open>v\<close> reads back as the double \<open>d\<close> when it lies between the midpoints to
  the neighbours of \<open>d\<close>, a midpoint included when the significand of \<open>d\<close> is even.
  \<open>roundsTo lo2 hi2 incl v\<close> is that test on doubled values, \<open>lo2\<close> and \<open>hi2\<close> being twice the
  midpoints.
\<close>

definition roundsTo :: "nat \<Rightarrow> nat \<Rightarrow> bool \<Rightarrow> nat \<Rightarrow> bool" where
  "roundsTo lo2 hi2 incl v =
     ((lo2 < 2 * v \<and> 2 * v < hi2) \<or> (incl \<and> (2 * v = lo2 \<or> 2 * v = hi2)))"

text \<open>
  The number the language prints for a double \<open>d\<close> of at least 54 bits: the decimal with
  the fewest significant digits that reads back as \<open>d\<close>, the one nearest to \<open>d\<close> when there
  are several, the one with the even last digit when two are equally near.  The search
  goes from the largest power of ten down.  Below a power of two the lower neighbour of
  \<open>d\<close> is half as far away as the upper one.
\<close>

fun shortestFrom :: "nat \<Rightarrow> nat \<Rightarrow> bool \<Rightarrow> nat \<Rightarrow> nat \<Rightarrow> nat" where
  "shortestFrom lo2 hi2 incl d 0 = d"
| "shortestFrom lo2 hi2 incl d (Suc j) =
     (let p = 10 ^ Suc j; c1 = (d div p) * p; c2 = c1 + p;
          in1 = roundsTo lo2 hi2 incl c1; in2 = roundsTo lo2 hi2 incl c2 in
      if in1 \<and> in2
      then (if d - c1 < c2 - d then c1 else if c2 - d < d - c1 then c2
            else if even (c1 div p) then c1 else c2)
      else if in1 then c1
      else if in2 then c2
      else shortestFrom lo2 hi2 incl d j)"

definition shortestDecimal :: "nat \<Rightarrow> nat" where
  "shortestDecimal d =
     (let e = bitLength d - 53; m = d div 2 ^ e;
          hi2 = 2 * d + 2 ^ e;
          lo2 = (if m = 2 ^ 52 then 2 * d - 2 ^ (e - 1) else 2 * d - 2 ^ e)
      in shortestFrom lo2 hi2 (even m) d (length (natToString d)))"

text \<open>
  From 22 digits on the language prints the significant digits, a point after the first
  of them, and the exponent.
\<close>

definition exponentForm :: "string \<Rightarrow> string" where
  "exponentForm ds =
     (case rev (dropWhile (\<lambda>c. c = CHR ''0'') (rev ds)) of
        [] \<Rightarrow> []
      | x # xs \<Rightarrow> x # (if xs = [] then [] else CHR ''.'' # xs) @ ''e+'' @ natToString (length ds - 1))"

definition magnitudeToString :: "nat \<Rightarrow> string" where
  "magnitudeToString n =
     (let d = toDouble n in
      if d \<ge> 2 ^ 1024 then ''Infinity''
      else (let ds = natToString (if bitLength d \<le> 53 then d else shortestDecimal d)
            in if length ds \<le> 21 then ds else exponentForm ds))"

text \<open>Template-literal rendering of a number.\<close>

fun numberToString :: "number \<Rightarrow> string" where
  "numberToString NaN = ''NaN''"
| "numberToString (Num i) = (if i < 0 then ''-'' else []) @ magnitudeToString (nat \<bar>i\<bar>)"

section \<open>QueryBuilder\<close>

datatype error = TypeError | SyntaxError

record condition =
  cond_field :: string
  cond_operator :: string
  cond_value :: string
  cond_type :: string
  cond_groupId :: "string option"

record sortKey =
  sort_field :: string
  sort_direction :: string

text \<open>
  \<open>selectedFields\<close> is a \<^verbatim>\<open>Set\<close>; the list holds its elements in insertion order, which is
  the order \<^verbatim>\<open>Array.from\<close> yields.  \<open>limit\<close> is \<^verbatim>\<open>null\<close> or a number.
\<close>

record QueryBuilder =
  conditions :: "condition list"
  selectedObject :: "string option"
  selectedFields :: "string list"
  orderBy :: "sortKey list"
  limit :: "number option"
  groupOperator :: string

subsection \<open>formatValue\<close>

text \<open>\<^verbatim>\<open>value.replace(/'/g, "\\'")\<close>: every single quote gets a backslash in front.\<close>

fun escapeQuotes :: "string \<Rightarrow> string" where
  "escapeQuotes [] = []"
| "escapeQuotes (c # cs) = (if c = sq then bs # sq # escapeQuotes cs else c # escapeQuotes cs)"

definition formatValue :: "string \<Rightarrow> string \<Rightarrow> string" where
  "formatValue v t =
     (if t = ''string'' \<or> t = ''textarea'' \<or> t = ''url'' \<or> t = ''email'' \<or> t = ''phone''
        then [sq] @ escapeQuotes v @ [sq]
      else if t = ''boolean'' then v
      else if t = ''date'' then (if str_includes v [sq] then v else [sq] @ v @ [sq])
      else if t = ''datetime'' then (if str_includes v [sq] then v else v)
      else if t = ''number'' \<or> t = ''currency'' \<or> t = ''percent'' then v
      else [sq] @ escapeQuotes v @ [sq])"

subsection \<open>buildQuery\<close>

text \<open>
  \<open>groupedConditions\<close> is a plain object used as a dictionary.  It is modelled as an
  association list in insertion order.  A lookup \<^verbatim>\<open>acc[groupId]\<close> on a key the object does
  not own falls through to \<^verbatim>\<open>Object.prototype\<close>: for the member names of the prototype the
  lookup yields a function (or the prototype itself), which is truthy, so no array is
  created and the following \<^verbatim>\<open>.push\<close> is a call of \<^verbatim>\<open>undefined\<close>.
\<close>

definition objectPrototypeKeys :: "string list" where
  "objectPrototypeKeys =
     [''constructor'', ''__defineGetter__'', ''__defineSetter__'', ''hasOwnProperty'',
      ''__lookupGetter__'', ''__lookupSetter__'', ''isPrototypeOf'', ''propertyIsEnumerable'',
      ''toString'', ''valueOf'', ''__proto__'', ''toLocaleString'']"

text \<open>\<^verbatim>\<open>condition.groupId || 'default'\<close>: an absent and an empty group id are both falsy.\<close>

definition groupKey :: "condition \<Rightarrow> string" where
  "groupKey c = (case cond_groupId c of None \<Rightarrow> ''default''
                 | Some g \<Rightarrow> (if g = [] then ''default'' else g))"

fun pushTo :: "string \<Rightarrow> condition \<Rightarrow> (string \<times> condition list) list \<Rightarrow> (string \<times> condition list) list" where
  "pushTo g c [] = []"
| "pushTo g c ((k, cs) # rest) = (if k = g then (k, cs @ [c]) # rest else (k, cs) # pushTo g c rest)"

definition groupStep :: "(string \<times> condition list) list \<Rightarrow> condition \<Rightarrow> error + (string \<times> condition list) list" where
  "groupStep acc c =
     (let g = groupKey c in
      if g \<in> set objectPrototypeKeys then Inl TypeError
      else if g \<in> set (map fst acc) then Inr (pushTo g c acc)
      else Inr (pushTo g c (acc @ [(g, [])])))"

fun reduceGroups :: "(string \<times> condition list) list \<Rightarrow> condition list \<Rightarrow> error + (string \<times> condition list) list" where
  "reduceGroups acc [] = Inr acc"
| "reduceGroups acc (c # cs) =
     (case groupStep acc c of Inl e \<Rightarrow> Inl e | Inr acc' \<Rightarrow> reduceGroups acc' cs)"

text \<open>
  \<^verbatim>\<open>Object.entries\<close> lists the keys that are array indices first, in ascending numeric
  order, and the other keys after them in insertion order.  An array index is the
  canonical decimal form of a number below \<open>2^32 - 1\<close>.
\<close>

definition isDigit :: "char \<Rightarrow> bool" where
  "isDigit c = ((48::nat) \<le> of_char c \<and> (of_char c :: nat) \<le> 57)"

definition digitsValue :: "string \<Rightarrow> nat" where
  "digitsValue s = foldl (\<lambda>n c. 10 * n + ((of_char c :: nat) - 48)) (0::nat) s"

definition arrayIndex :: "string \<Rightarrow> nat option" where
  "arrayIndex s =
     (if s \<noteq> [] \<and> list_all isDigit s \<and> (s = ''0'' \<or> hd s \<noteq> CHR ''0'')
         \<and> digitsValue s < 4294967295
      then Some (digitsValue s) else None)"

definition objectEntries :: "(string \<times> 'a) list \<Rightarrow> (string \<times> 'a) list" where
  "objectEntries acc =
     sort_key (\<lambda>e. the (arrayIndex (fst e))) (filter (\<lambda>e. arrayIndex (fst e) \<noteq> None) acc)
     @ filter (\<lambda>e. arrayIndex (fst e) = None) acc"

definition conditionString :: "condition \<Rightarrow> string" where
  "conditionString c =
     cond_field c @ '' '' @ cond_operator c @ '' '' @ formatValue (cond_value c) (cond_type c)"

definition groupString :: "string \<Rightarrow> condition list \<Rightarrow> string" where
  "groupString op cs =
     (let conditionStr = join ('' '' @ op @ '' '') (map conditionString cs)
      in if length cs > 1 then ''('' @ conditionStr @ '')'' else conditionStr)"

definition selectClause :: "QueryBuilder \<Rightarrow> string" where
  "selectClause b =
     ''SELECT '' @ (if length (selectedFields b) = 0 then ''Id'' else join '', '' (selectedFields b))"

definition fromClause :: "QueryBuilder \<Rightarrow> string" where
  "fromClause b = (case selectedObject b of None \<Rightarrow> []
                   | Some obj \<Rightarrow> (if obj = [] then [] else '' FROM '' @ obj))"

definition conditionsClause :: "QueryBuilder \<Rightarrow> error + string" where
  "conditionsClause b =
     (if length (conditions b) > 0 then
        (case reduceGroups [] (conditions b) of
           Inl e \<Rightarrow> Inl e
         | Inr groupedConditions \<Rightarrow>
             Inr ('' WHERE '' @ join ('' '' @ groupOperator b @ '' '')
                    (map (\<lambda>(groupId, cs). groupString (groupOperator b) cs)
                         (objectEntries groupedConditions))))
      else Inr [])"

definition orderByClause :: "QueryBuilder \<Rightarrow> string" where
  "orderByClause b =
     (if length (orderBy b) > 0
      then '' ORDER BY '' @ join '', '' (map (\<lambda>k. sort_field k @ '' '' @ sort_direction k) (orderBy b))
      else [])"

definition limitClause :: "QueryBuilder \<Rightarrow> string" where
  "limitClause b = (case limit b of None \<Rightarrow> []
                    | Some n \<Rightarrow> (if numberTruthy n then '' LIMIT '' @ numberToString n else []))"

definition buildQuery :: "QueryBuilder \<Rightarrow> error + string" where
  "buildQuery b =
     (case conditionsClause b of
        Inl e \<Rightarrow> Inl e
      | Inr w \<Rightarrow> Inr (selectClause b @ fromClause b @ w @ orderByClause b @ limitClause b))"

section \<open>Regular expressions\<close>

text \<open>
  The regular expressions of the source use literal characters, the classes \<^verbatim>\<open>\s\<close>, \<^verbatim>\<open>\w\<close>
  and \<^verbatim>\<open>.\<close>, the quantifiers \<^verbatim>\<open>+\<close> (greedy) and \<^verbatim>\<open>*?\<close> (lazy) on a single character,
  sequence, alternation, one capture group and \<^verbatim>\<open>$\<close>.  The matcher is the backtracking
  matcher of the language: a continuation receives the rest of the input and the capture,
  and the first way to succeed, in the order the language tries them, is the match.
\<close>

datatype atom = Ch char | Space | Word | Dot

datatype rx = Eps | Atom atom | Plus atom | StarLazy atom | Seq rx rx | Alt rx rx | Group rx | Eos

definition isSpace :: "char \<Rightarrow> bool" where
  "isSpace c = (c \<in> set [CHR 0x09, CHR 0x0A, CHR 0x0B, CHR 0x0C, CHR 0x0D, CHR 0x20, CHR 0xA0])"

definition isWord :: "char \<Rightarrow> bool" where
  "isWord c = (c \<in> set ''abcdefghijklmnopqrstuvwxyzABCDEFGHIJKLMNOPQRSTUVWXYZ0123456789_'')"

definition isLineTerminator :: "char \<Rightarrow> bool" where
  "isLineTerminator c = (c \<in> set [CHR 0x0A, CHR 0x0D])"

text \<open>The flag \<^verbatim>\<open>i\<close> compares characters after mapping them to upper case.\<close>

definition canonicalize :: "char \<Rightarrow> char" where
  "canonicalize c =
     (case map_of (zip ''abcdefghijklmnopqrstuvwxyz'' ''ABCDEFGHIJKLMNOPQRSTUVWXYZ'') c of
        Some u \<Rightarrow> u | None \<Rightarrow> c)"

fun atomMatch :: "bool \<Rightarrow> atom \<Rightarrow> char \<Rightarrow> bool" where
  "atomMatch ic (Ch x) c = (if ic then canonicalize x = canonicalize c else x = c)"
| "atomMatch ic Space c = isSpace c"
| "atomMatch ic Word c = isWord c"
| "atomMatch ic Dot c = (\<not> isLineTerminator c)"

fun starGreedy :: "bool \<Rightarrow> atom \<Rightarrow> string \<Rightarrow> (string \<Rightarrow> 'r option) \<Rightarrow> 'r option" where
  "starGreedy ic a [] k = k []"
| "starGreedy ic a (c # cs) k =
     (if atomMatch ic a c
      then (case starGreedy ic a cs k of Some r \<Rightarrow> Some r | None \<Rightarrow> k (c # cs))
      else k (c # cs))"

fun starLazy :: "bool \<Rightarrow> atom \<Rightarrow> string \<Rightarrow> (string \<Rightarrow> 'r option) \<Rightarrow> 'r option" where
  "starLazy ic a [] k = k []"
| "starLazy ic a (c # cs) k =
     (case k (c # cs) of Some r \<Rightarrow> Some r
      | None \<Rightarrow> (if atomMatch ic a c then starLazy ic a cs k else None))"

fun rxMatch :: "bool \<Rightarrow> rx \<Rightarrow> string \<Rightarrow> string option \<Rightarrow> (string \<Rightarrow> string option \<Rightarrow> 'r option) \<Rightarrow> 'r option" where
  "rxMatch ic Eps s cap k = k s cap"
| "rxMatch ic (Atom a) s cap k =
     (case s of [] \<Rightarrow> None | c # cs \<Rightarrow> if atomMatch ic a c then k cs cap else None)"
| "rxMatch ic (Plus a) s cap k =
     (case s of [] \<Rightarrow> None
      | c # cs \<Rightarrow> if atomMatch ic a c then starGreedy ic a cs (\<lambda>s'. k s' cap) else None)"
| "rxMatch ic (StarLazy a) s cap k = starLazy ic a s (\<lambda>s'. k s' cap)"
| "rxMatch ic (Seq r1 r2) s cap k = rxMatch ic r1 s cap (\<lambda>s' cap'. rxMatch ic r2 s' cap' k)"
| "rxMatch ic (Alt r1 r2) s cap k =
     (case rxMatch ic r1 s cap k of Some r \<Rightarrow> Some r | None \<Rightarrow> rxMatch ic r2 s cap k)"
| "rxMatch ic (Group r) s cap k =
     rxMatch ic r s cap (\<lambda>s' cap'. k s' (Some (take (length s - length s') s)))"
| "rxMatch ic Eos s cap k = (if s = [] then k s cap else None)"

text \<open>A match at the start of \<open>s\<close>: the matched text and the text of the capture group.\<close>

definition matchAt :: "bool \<Rightarrow> rx \<Rightarrow> string \<Rightarrow> (string \<times> string option) option" where
  "matchAt ic r s =
     rxMatch ic r s None (\<lambda>s' cap. Some (take (length s - length s') s, cap))"

text \<open>\<^verbatim>\<open>str.match(re)\<close> without the flag \<^verbatim>\<open>g\<close>: the leftmost position with a match.\<close>

fun regexExec :: "bool \<Rightarrow> rx \<Rightarrow> string \<Rightarrow> (string \<times> string option) option" where
  "regexExec ic r [] = matchAt ic r []"
| "regexExec ic r (c # cs) =
     (case matchAt ic r (c # cs) of Some res \<Rightarrow> Some res | None \<Rightarrow> regexExec ic r cs)"

definition regexTest :: "bool \<Rightarrow> rx \<Rightarrow> string \<Rightarrow> bool" where
  "regexTest ic r s = (regexExec ic r s \<noteq> None)"

text \<open>
  \<^verbatim>\<open>str.match(re) || []\<close> with the flag \<^verbatim>\<open>g\<close>: all matches from left to right, each search
  starting where the previous match ended (one further after an empty match).  \<open>skip\<close> counts
  the characters of the last match still to be passed over.
\<close>

fun matchAllFrom :: "bool \<Rightarrow> rx \<Rightarrow> nat \<Rightarrow> string \<Rightarrow> string list" where
  "matchAllFrom ic r skip [] =
     (if skip = 0 then (case matchAt ic r [] of Some (m, cap) \<Rightarrow> [m] | None \<Rightarrow> []) else [])"
| "matchAllFrom ic r skip (c # cs) =
     (if skip > 0 then matchAllFrom ic r (skip - 1) cs
      else (case matchAt ic r (c # cs) of
              Some (m, cap) \<Rightarrow> m # matchAllFrom ic r (length m - 1) cs
            | None \<Rightarrow> matchAllFrom ic r 0 cs))"

definition matchAll :: "bool \<Rightarrow> rx \<Rightarrow> string \<Rightarrow> string list" where
  "matchAll ic r s = matchAllFrom ic r 0 s"

fun lit :: "string \<Rightarrow> rx" where
  "lit [] = Eps"
| "lit (c # cs) = Seq (Atom (Ch c)) (lit cs)"

declare lit.simps [simp del] regexExec.simps [simp del]

text \<open>\<^verbatim>\<open>/WHERE\s+(.*?)(?:\s+ORDER BY|\s+LIMIT|$)/i\<close>\<close>

definition whereRe :: rx where
  "whereRe =
     Seq (lit ''WHERE'') (Seq (Plus Space) (Seq (Group (StarLazy Dot))
       (Alt (Seq (Plus Space) (lit ''ORDER BY'')) (Alt (Seq (Plus Space) (lit ''LIMIT'')) Eos))))"

text \<open>\<^verbatim>\<open>/SELECT\s+\*/i\<close>\<close>

definition selectStarRe :: rx where
  "selectStarRe = Seq (lit ''SELECT'') (Seq (Plus Space) (Atom (Ch (CHR ''*''))))"

text \<open>\<^verbatim>\<open>/\w+\.\w+|\w+/g\<close>\<close>

definition fieldTokenRe :: rx where
  "fieldTokenRe = Alt (Seq (Plus Word) (Seq (Atom (Ch (CHR ''.''))) (Plus Word))) (Plus Word)"

text \<open>\<^verbatim>\<open>/FROM\s+(\w+)/i\<close>\<close>

definition fromRe :: rx where
  "fromRe = Seq (lit ''FROM'') (Seq (Plus Space) (Group (Plus Word)))"

text \<open>\<^verbatim>\<open>/SELECT\s+(.*?)\s+FROM/i\<close>\<close>

definition selectRe :: rx where
  "selectRe =
     Seq (lit ''SELECT'') (Seq (Plus Space) (Seq (Group (StarLazy Dot)) (Seq (Plus Space) (lit ''FROM''))))"

section \<open>Metadata\<close>

record objectMeta =
  obj_name :: string
  obj_label :: string

record fieldMeta =
  fld_name :: string
  fld_label :: string
  fld_type :: string
  fld_indexed :: bool

section \<open>QueryOptimizer\<close>

record suggestion =
  sug_type :: string
  sug_severity :: string
  sug_message :: string
  sug_fix :: string

definition selectStarSuggestion :: suggestion where
  "selectStarSuggestion =
     \<lparr>sug_type = ''performance'', sug_severity = ''warning'',
      sug_message = ''Specify only needed fields instead of SELECT *'',
      sug_fix = ''Select specific fields''\<rparr>"

definition tooManyRecordsSuggestion :: suggestion where
  "tooManyRecordsSuggestion =
     \<lparr>sug_type = ''performance'', sug_severity = ''warning'',
      sug_message = ''Query might return too many records'',
      sug_fix = ''Add WHERE clause or LIMIT''\<rparr>"

definition notIndexedSuggestion :: "string \<Rightarrow> suggestion" where
  "notIndexedSuggestion field =
     \<lparr>sug_type = ''performance'', sug_severity = ''info'',
      sug_message = ''Field \"'' @ field @ ''\" is not indexed'',
      sug_fix = ''Consider using indexed fields in filters''\<rparr>"

definition orderByNoLimitSuggestion :: suggestion where
  "orderByNoLimitSuggestion =
     \<lparr>sug_type = ''performance'', sug_severity = ''info'',
      sug_message = ''ORDER BY without LIMIT might be slow'',
      sug_fix = ''Add LIMIT clause''\<rparr>"

text \<open>
  \<open>fieldMetadata\<close> is \<^verbatim>\<open>null\<close> before an object has been described, hence an option.  The
  body pushes onto one array; each step below returns the array after the push.
\<close>

definition unindexedStep :: "fieldMeta list \<Rightarrow> suggestion list \<Rightarrow> string \<Rightarrow> suggestion list" where
  "unindexedStep fieldMetadata suggestions field =
     (case find (\<lambda>f. fld_name f = field) fieldMetadata of
        Some fieldInfo \<Rightarrow>
          (if \<not> fld_indexed fieldInfo then suggestions @ [notIndexedSuggestion field] else suggestions)
      | None \<Rightarrow> suggestions)"

definition analyzeQuery :: "string \<Rightarrow> objectMeta list \<Rightarrow> fieldMeta list option \<Rightarrow> suggestion list" where
  "analyzeQuery query objectMetadata fieldMetadata =
     (let suggestions0 = [];
          suggestions1 =
            (if regexTest True selectStarRe query
             then suggestions0 @ [selectStarSuggestion] else suggestions0);
          suggestions2 =
            (if \<not> regexTest True (lit ''WHERE'') query \<and> \<not> regexTest True (lit ''LIMIT'') query
             then suggestions1 @ [tooManyRecordsSuggestion] else suggestions1);
          suggestions3 =
            (case (regexExec True whereRe query, fieldMetadata) of
               (Some (m, Some whereClause), Some metadata) \<Rightarrow>
                 foldl (unindexedStep metadata) suggestions2 (matchAll False fieldTokenRe whereClause)
             | _ \<Rightarrow> suggestions2);
          suggestions4 =
            (if regexTest True (lit ''ORDER BY'') query \<and> \<not> regexTest True (lit ''LIMIT'') query
             then suggestions3 @ [orderByNoLimitSuggestion] else suggestions3)
      in suggestions4)"

section \<open>QueryValidator\<close>

text \<open>\<^verbatim>\<open>String.prototype.split\<close> on a single-character separator.\<close>

fun split :: "char \<Rightarrow> string \<Rightarrow> string list" where
  "split sep [] = [] # []"
| "split sep (c # cs) =
     (case split sep cs of
        [] \<Rightarrow> []
      | w # ws \<Rightarrow> (if c = sep then [] # w # ws else (c # w) # ws))"

definition trim :: "string \<Rightarrow> string" where
  "trim s = rev (dropWhile isSpace (rev (dropWhile isSpace s)))"

definition countChar :: "char \<Rightarrow> string \<Rightarrow> nat" where
  "countChar c s = length (filter (\<lambda>x. x = c) s)"

definition fieldStep :: "fieldMeta list option \<Rightarrow> string list \<Rightarrow> string \<Rightarrow> string list" where
  "fieldStep fieldMetadata errors field =
     (if field = ''*'' then errors @ [''Wildcard (*) selections are not supported'']
      else if field \<noteq> ''Id''
              \<and> (case fieldMetadata of None \<Rightarrow> True
                  | Some metadata \<Rightarrow> find (\<lambda>f. fld_name f = field) metadata = None)
        then errors @ [''Field \"'' @ field @ ''\" not found'']
      else errors)"

definition validateQuery :: "string \<Rightarrow> objectMeta list \<Rightarrow> fieldMeta list option \<Rightarrow> string list" where
  "validateQuery query objectMetadata fieldMetadata =
     (let errors0 = [] in
      if \<not> str_includes query ''SELECT'' \<or> \<not> str_includes query ''FROM''
      then errors0 @ [''Query must include SELECT and FROM clauses'']
      else
        (let errors1 =
               (case regexExec True fromRe query of
                  Some (m, Some objectName) \<Rightarrow>
                    (if find (\<lambda>obj. obj_name obj = objectName) objectMetadata = None
                     then errors0 @ [''Object \"'' @ objectName @ ''\" not found'']
                     else errors0)
                | _ \<Rightarrow> errors0);
             errors2 =
               (case regexExec True selectRe query of
                  Some (m, Some fieldList) \<Rightarrow>
                    foldl (fieldStep fieldMetadata) errors1 (map trim (split (CHR '','') fieldList))
                | _ \<Rightarrow> errors1);
             errors3 =
               (case regexExec True whereRe query of
                  Some (m, Some whereClause) \<Rightarrow>
                    (if countChar (CHR ''('') whereClause \<noteq> countChar (CHR '')'') whereClause
                     then errors2 @ [''Unmatched parentheses in WHERE clause'']
                     else errors2)
                | _ \<Rightarrow> errors2)
         in errors3))"

section \<open>Persistence stores\<close>

text \<open>
  \<^verbatim>\<open>localStorage\<close> maps keys to strings.  The stores only ever pass a stored string to
  \<^verbatim>\<open>JSON.parse\<close> and only ever store the result of \<^verbatim>\<open>JSON.stringify\<close>, so a stored string is
  represented by what \<^verbatim>\<open>JSON.parse\<close> makes of it: a value, or a failure for a string that
  is not valid JSON.  Numbers are limited to integers.
\<close>

datatype json = JNull | JBool bool | JNum int | JStr string | JArr "json list"
  | JObj "(string \<times> json) list"

datatype item = Malformed | Text json

type_synonym localStorage = "string \<Rightarrow> item option"

definition getItem :: "localStorage \<Rightarrow> string \<Rightarrow> item option" where
  "getItem store key = store key"

definition setItem :: "localStorage \<Rightarrow> string \<Rightarrow> json \<Rightarrow> localStorage" where
  "setItem store key v = store(key \<mapsto> Text v)"

text \<open>\<^verbatim>\<open>JSON.parse(null)\<close> parses the text \<^verbatim>\<open>"null"\<close>.\<close>

fun JSON_parse :: "item option \<Rightarrow> error + json" where
  "JSON_parse None = Inr JNull"
| "JSON_parse (Some Malformed) = Inl SyntaxError"
| "JSON_parse (Some (Text v)) = Inr v"

fun truthy :: "json \<Rightarrow> bool" where
  "truthy JNull = False"
| "truthy (JBool b) = b"
| "truthy (JNum n) = (n \<noteq> 0)"
| "truthy (JStr s) = (s \<noteq> [])"
| "truthy (JArr xs) = True"
| "truthy (JObj kvs) = True"

record SavedQueries =
  sq_storageKey :: string

text \<open>\<open>maxSize\<close> is a size, a natural number.\<close>

record QueryHistory =
  qh_storageKey :: string
  maxSize :: nat

text \<open>\<^verbatim>\<open>try { return JSON.parse(...) || []; } catch { return []; }\<close>\<close>

definition SavedQueries_getAll :: "SavedQueries \<Rightarrow> localStorage \<Rightarrow> error + json" where
  "SavedQueries_getAll this store =
     (case JSON_parse (getItem store (sq_storageKey this)) of
        Inl e \<Rightarrow> Inr (JArr [])
      | Inr v \<Rightarrow> Inr (if truthy v then v else JArr []))"

definition QueryHistory_getAll :: "QueryHistory \<Rightarrow> localStorage \<Rightarrow> error + json" where
  "QueryHistory_getAll this store =
     (case JSON_parse (getItem store (qh_storageKey this)) of
        Inl e \<Rightarrow> Inr (JArr [])
      | Inr v \<Rightarrow> Inr (if truthy v then v else JArr []))"

definition historyEntry :: "json \<Rightarrow> string \<Rightarrow> json" where
  "historyEntry query timestamp = JObj [(''query'', query), (''timestamp'', JStr timestamp)]"

text \<open>
  \<open>add\<close> takes the time stamp that \<^verbatim>\<open>new Date().toISOString()\<close> yields.  A stored value
  that is not an array has no \<^verbatim>\<open>unshift\<close>.
\<close>

definition QueryHistory_add :: "QueryHistory \<Rightarrow> json \<Rightarrow> string \<Rightarrow> localStorage \<Rightarrow> error + localStorage" where
  "QueryHistory_add this query timestamp store =
     (case QueryHistory_getAll this store of
        Inl e \<Rightarrow> Inl e
      | Inr (JArr history) \<Rightarrow>
          (let history1 = historyEntry query timestamp # history;
               history2 = (if length history1 > maxSize this then butlast history1 else history1)
           in Inr (setItem store (qh_storageKey this) (JArr history2)))
      | Inr _ \<Rightarrow> Inl TypeError)"

fun QueryHistory_addAll :: "QueryHistory \<Rightarrow> (json \<times> string) list \<Rightarrow> localStorage \<Rightarrow> error + localStorage" where
  "QueryHistory_addAll this [] store = Inr store"
| "QueryHistory_addAll this ((q, t) # rest) store =
     (case QueryHistory_add this q t store of
        Inl e \<Rightarrow> Inl e
      | Inr store' \<Rightarrow> QueryHistory_addAll this rest store')"

definition emptyStorage :: localStorage where
  "emptyStorage = (\<lambda>key. None)"

section \<open>UndoManager\<close>

text \<open>
  The states are values that survive \<^verbatim>\<open>JSON.parse(JSON.stringify(state))\<close> unchanged, so
  the copy is the identity.  \<open>maxHistory\<close> is a size, a natural number.
\<close>

record 'a UndoManager =
  history :: "'a list"
  currentIndex :: int
  maxHistory :: nat

definition newUndoManager :: "nat \<Rightarrow> 'a UndoManager" where
  "newUndoManager m = \<lparr>history = [], currentIndex = - 1, maxHistory = m\<rparr>"

text \<open>\<^verbatim>\<open>xs.slice(0, e)\<close>: a negative end counts from the end of the array.\<close>

definition slice0 :: "'a list \<Rightarrow> int \<Rightarrow> 'a list" where
  "slice0 xs e = (if e < 0 then take (nat (int (length xs) + e)) xs else take (nat e) xs)"

definition pushState :: "'a \<Rightarrow> 'a UndoManager \<Rightarrow> 'a UndoManager" where
  "pushState state this =
     (let history1 = (if currentIndex this < int (length (history this)) - 1
                      then slice0 (history this) (currentIndex this + 1)
                      else history this);
          history2 = history1 @ [state]
      in if length history2 > maxHistory this
         then this\<lparr>history := tl history2\<rparr>
         else this\<lparr>history := history2, currentIndex := currentIndex this + 1\<rparr>)"

definition canUndo :: "'a UndoManager \<Rightarrow> bool" where
  "canUndo this = (currentIndex this > 0)"

definition canRedo :: "'a UndoManager \<Rightarrow> bool" where
  "canRedo this = (currentIndex this < int (length (history this)) - 1)"

text \<open>
  \<^verbatim>\<open>JSON.parse(JSON.stringify(this.history[this.currentIndex]))\<close>: an index outside the
  array reads \<^verbatim>\<open>undefined\<close>, which \<^verbatim>\<open>JSON.parse\<close> rejects.
\<close>

definition currentState :: "'a UndoManager \<Rightarrow> error + 'a option" where
  "currentState this =
     (if 0 \<le> currentIndex this \<and> currentIndex this < int (length (history this))
      then Inr (Some (history this ! nat (currentIndex this)))
      else Inl SyntaxError)"

definition undo :: "'a UndoManager \<Rightarrow> (error + 'a option) \<times> 'a UndoManager" where
  "undo this =
     (if canUndo this
      then (let this' = this\<lparr>currentIndex := currentIndex this - 1\<rparr> in (currentState this', this'))
      else (Inr None, this))"

definition redo :: "'a UndoManager \<Rightarrow> (error + 'a option) \<times> 'a UndoManager" where
  "redo this =
     (if canRedo this
      then (let this' = this\<lparr>currentIndex := currentIndex this + 1\<rparr> in (currentState this', this'))
      else (Inr None, this))"

definition clear :: "'a UndoManager \<Rightarrow> 'a UndoManager" where
  "clear this = this\<lparr>history := [], currentIndex := - 1\<rparr>"

datatype 'a undoOp = PushState 'a | Undo | Redo | Clear

fun applyOp :: "'a UndoManager \<Rightarrow> 'a undoOp \<Rightarrow> 'a UndoManager" where
  "applyOp this (PushState s) = pushState s this"
| "applyOp this Undo = snd (undo this)"
| "applyOp this Redo = snd (redo this)"
| "applyOp this Clear = clear this"

definition runOps :: "nat \<Rightarrow> 'a undoOp list \<Rightarrow> 'a UndoManager" where
  "runOps m ops = foldl applyOp (newUndoManager m) ops"

section \<open>Notions used in the properties\<close>

text \<open>The invariant of the manager.\<close>

definition undoInv :: "'a UndoManager \<Rightarrow> bool" where
  "undoInv this = (- 1 \<le> currentIndex this \<and> currentIndex this \<le> int (length (history this)) - 1
                   \<and> length (history this) \<le> maxHistory this)"

text \<open>The characters the language uses when it prints a number.\<close>

definition numChar :: "char \<Rightarrow> bool" where
  "numChar c = (c \<in> set ''-0123456789.e+InfityNa'')"

text \<open>
  A clause of the query is empty or starts with a space; \<open>seg w x\<close> says so of \<open>x\<close> and that
  the text after the space does not contain \<open>w\<close>.
\<close>

definition seg :: "string \<Rightarrow> string \<Rightarrow> bool" where
  "seg w x = (x = [] \<or> (\<exists>x'. x = CHR '' '' # x' \<and> \<not> sublist w x'))"

text \<open>
  A field token counts when the first metadata entry of that name is not indexed, which is
  what \<^verbatim>\<open>fieldMetadata.find\<close> followed by \<^verbatim>\<open>!fieldInfo.indexed\<close> tests.
\<close>

definition unindexed :: "fieldMeta list \<Rightarrow> string \<Rightarrow> bool" where
  "unindexed metadata field =
     (case find (\<lambda>f. fld_name f = field) metadata of Some f \<Rightarrow> \<not> fld_indexed f | None \<Rightarrow> False)"

text \<open>The text \<open>w\<close> stands at the start of \<open>s\<close>, up to case when \<open>ic\<close> is set.\<close>

definition litAt :: "bool \<Rightarrow> string \<Rightarrow> string \<Rightarrow> bool" where
  "litAt ic w s = (length w \<le> length s \<and> list_all2 (\<lambda>x c. atomMatch ic (Ch x) c) w (take (length w) s))"










section \<open>Properties\<close>

subsection \<open>Substring search and value formatting\<close>

lemma str_includes_sublist: "str_includes s w \<longleftrightarrow> sublist w s"
proof
  assume "str_includes s w"
  then obtain i where "i \<in> set [0..<Suc (length s)]" and i: "take (length w) (drop i s) = w"
    unfolding str_includes_def by blast
  have "s = take i s @ drop i s"
    by (simp only: append_take_drop_id)
  also have "drop i s = take (length w) (drop i s) @ drop (length w) (drop i s)"
    by (simp only: append_take_drop_id)
  finally have "s = take i s @ w @ drop (length w) (drop i s)"
    by (simp only: i)
  then show "sublist w s" unfolding sublist_def by blast
next
  assume "sublist w s"
  then obtain ps ss where s: "s = ps @ w @ ss" unfolding sublist_def by blast
  have "length ps \<in> set [0..<Suc (length s)]" by (simp add: s)
  moreover have "take (length w) (drop (length ps) s) = w" by (simp add: s)
  ultimately show "str_includes s w" unfolding str_includes_def by blast
qed

lemma str_includes_char: "str_includes s [c] \<longleftrightarrow> c \<in> set s"
proof
  assume "str_includes s [c]"
  then have "set [c] \<subseteq> set s"
    unfolding str_includes_sublist by (rule set_mono_sublist)
  then show "c \<in> set s" by simp
next
  assume "c \<in> set s"
  then obtain ys zs where "s = ys @ [c] @ zs" by (auto dest: split_list)
  then show "str_includes s [c]" unfolding str_includes_sublist sublist_def by blast
qed

lemma escapeQuotes_concat:
  "escapeQuotes v = concat (map (\<lambda>c. if c = sq then [bs, sq] else [c]) v)"
  by (induction v) auto

text \<open>
  C2: for every value and declared field type, \<open>formatValue\<close> single-quotes the value with
  every embedded single quote escaped by a backslash for the types string, textarea, url,
  email and phone and for every unrecognised type; returns the value verbatim for boolean,
  number, currency and percent; single-quotes a date unless it already contains a single
  quote; passes a datetime through.  \<open>O'Brien\<close> of type string becomes \<open>'O\'Brien'\<close>, and a
  number is emitted without quotes.
\<close>

theorem formatValue_by_type:
  "(t \<in> {''string'', ''textarea'', ''url'', ''email'', ''phone''} \<longrightarrow>
      formatValue v t = [sq] @ concat (map (\<lambda>c. if c = sq then [bs, sq] else [c]) v) @ [sq])
   \<and> (t \<in> {''boolean'', ''number'', ''currency'', ''percent''} \<longrightarrow> formatValue v t = v)
   \<and> (t = ''date'' \<longrightarrow> formatValue v t = (if sq \<in> set v then v else [sq] @ v @ [sq]))
   \<and> (t = ''datetime'' \<longrightarrow> formatValue v t = v)
   \<and> (t \<notin> {''string'', ''textarea'', ''url'', ''email'', ''phone'', ''boolean'', ''number'',
             ''currency'', ''percent'', ''date'', ''datetime''} \<longrightarrow>
      formatValue v t = [sq] @ concat (map (\<lambda>c. if c = sq then [bs, sq] else [c]) v) @ [sq])
   \<and> formatValue (''O'' @ [sq] @ ''Brien'') ''string'' = [sq] @ ''O'' @ [bs, sq] @ ''Brien'' @ [sq]
   \<and> formatValue v ''number'' = v"
  by (simp add: formatValue_def str_includes_char escapeQuotes_concat sq_def)

theorem formatValue_by_type_witness:
  "formatValue ''a@b.com'' ''email'' = [sq] @ ''a@b.com'' @ [sq]
   \<and> formatValue ''true'' ''boolean'' = ''true''
   \<and> formatValue ''2020-01-01'' ''date'' = [sq] @ ''2020-01-01'' @ [sq]
   \<and> formatValue ''NOW'' ''datetime'' = ''NOW''
   \<and> formatValue ''x'' ''picklist'' = [sq] @ ''x'' @ [sq]"
  using formatValue_by_type [of "''email''" "''a@b.com''"]
    formatValue_by_type [of "''boolean''" "''true''"]
    formatValue_by_type [of "''date''" "''2020-01-01''"]
    formatValue_by_type [of "''datetime''" "''NOW''"]
    formatValue_by_type [of "''picklist''" "''x''"]
  by (simp add: sq_def)

lemma numberToString_25: "numberToString (Num 25) = ''25''"
  by (simp add: magnitudeToString_def toDouble_def bitLength.simps natToString.simps digit_def
      Let_def shortestDecimal_def roundsTo_def exponentForm_def)

lemma numberToString_neg: "numberToString (Num (- 120)) = ''-120''"
  by (simp add: magnitudeToString_def toDouble_def bitLength.simps natToString.simps digit_def
      Let_def shortestDecimal_def roundsTo_def exponentForm_def)

lemma numberToString_odd: "numberToString (Num (2 ^ 53 + 1)) = ''9007199254740992''"
  by (simp add: magnitudeToString_def toDouble_def bitLength.simps natToString.simps digit_def
      Let_def shortestDecimal_def roundsTo_def exponentForm_def)

lemma numberToString_2_60: "numberToString (Num (2 ^ 60)) = ''1152921504606847000''"
  by (simp add: magnitudeToString_def toDouble_def bitLength.simps natToString.simps digit_def
      Let_def shortestDecimal_def roundsTo_def exponentForm_def)

lemma numberToString_10_21: "numberToString (Num (10 ^ 21)) = ''1e+21''"
  by (simp add: magnitudeToString_def toDouble_def bitLength.simps natToString.simps digit_def
      Let_def shortestDecimal_def roundsTo_def exponentForm_def)

lemma numberToString_2_70: "numberToString (Num (2 ^ 70)) = ''1.1805916207174113e+21''"
  by (simp add: magnitudeToString_def toDouble_def bitLength.simps natToString.simps digit_def
      Let_def shortestDecimal_def roundsTo_def exponentForm_def)

text \<open>
  C7: \<open>buildQuery\<close> appends \<open>LIMIT\<close> and the stored limit, as the language prints it, exactly
  when the limit is set and truthy: with a truthy limit the query is the query of the same
  builder without a limit followed by the clause; with no limit or a falsy one, and so
  with limit \<open>0\<close>, it is that query unchanged.  A double that is not a short decimal is printed
  the way the language prints it: \<open>2^60\<close> as \<open>1152921504606847000\<close>, \<open>10^21\<close> as \<open>1e+21\<close>.
\<close>

theorem buildQuery_limit:
  "(\<forall>n. limit b = Some n \<and> numberTruthy n \<longrightarrow>
      buildQuery b = map_sum id (\<lambda>q. q @ '' LIMIT '' @ numberToString n) (buildQuery (b\<lparr>limit := None\<rparr>)))
   \<and> (limit b = None \<or> (\<exists>n. limit b = Some n \<and> \<not> numberTruthy n) \<longrightarrow>
        buildQuery b = buildQuery (b\<lparr>limit := None\<rparr>))
   \<and> (limit b = Some (Num 0) \<longrightarrow> buildQuery b = buildQuery (b\<lparr>limit := None\<rparr>))
   \<and> numberToString (Num 25) = ''25''
   \<and> numberToString (Num (2 ^ 60)) = ''1152921504606847000''
   \<and> numberToString (Num (10 ^ 21)) = ''1e+21''"
proof -
  have "buildQuery b = map_sum id (\<lambda>q. q @ '' LIMIT '' @ numberToString n) (buildQuery (b\<lparr>limit := None\<rparr>))"
    if "limit b = Some n" "numberTruthy n" for n
    using that
    by (simp add: buildQuery_def conditionsClause_def selectClause_def fromClause_def orderByClause_def
        limitClause_def split: sum.splits)
  moreover have "buildQuery b = buildQuery (b\<lparr>limit := None\<rparr>)"
    if "limit b = None \<or> (\<exists>n. limit b = Some n \<and> \<not> numberTruthy n)"
    using that
    by (auto simp: buildQuery_def conditionsClause_def selectClause_def fromClause_def orderByClause_def
        limitClause_def split: sum.splits)
  moreover have "buildQuery b = buildQuery (b\<lparr>limit := None\<rparr>)" if "limit b = Some (Num 0)"
    using that
    by (simp add: buildQuery_def conditionsClause_def selectClause_def fromClause_def orderByClause_def
        limitClause_def split: sum.splits)
  ultimately show ?thesis using numberToString_25 numberToString_2_60 numberToString_10_21 by blast
qed

theorem buildQuery_limit_witness:
  "buildQuery \<lparr>conditions = [], selectedObject = Some ''Account'', selectedFields = [],
      orderBy = [], limit = Some (Num 25), groupOperator = ''AND''\<rparr> = Inr ''SELECT Id FROM Account LIMIT 25''
   \<and> buildQuery \<lparr>conditions = [], selectedObject = Some ''Account'', selectedFields = [],
      orderBy = [], limit = Some (Num 0), groupOperator = ''AND''\<rparr> = Inr ''SELECT Id FROM Account''
   \<and> buildQuery \<lparr>conditions = [], selectedObject = Some ''Account'', selectedFields = [],
      orderBy = [], limit = Some NaN, groupOperator = ''AND''\<rparr> = Inr ''SELECT Id FROM Account''"
  using buildQuery_limit [of "\<lparr>conditions = [], selectedObject = Some ''Account'',
      selectedFields = [], orderBy = [], limit = Some (Num 25), groupOperator = ''AND''\<rparr>"]
    buildQuery_limit [of "\<lparr>conditions = [], selectedObject = Some ''Account'',
      selectedFields = [], orderBy = [], limit = Some (Num 0), groupOperator = ''AND''\<rparr>"]
    buildQuery_limit [of "\<lparr>conditions = [], selectedObject = Some ''Account'',
      selectedFields = [], orderBy = [], limit = Some NaN, groupOperator = ''AND''\<rparr>"]
  by (simp add: buildQuery_def conditionsClause_def selectClause_def fromClause_def orderByClause_def
      limitClause_def numberToString_25)

subsection \<open>Strings without a given substring\<close>

lemma no_sublist_Cons:
  assumes "w \<noteq> []" "d \<notin> set w" "\<not> sublist w b"
  shows "\<not> sublist w (d # b)"
proof
  assume "sublist w (d # b)"
  with assms(3) have "prefix w (d # b)" by (simp add: sublist_Cons_right)
  with assms(1) have "hd w = d" by (cases w) auto
  with assms(1,2) show False by (cases w) auto
qed

lemma no_sublist_prepend:
  assumes "w \<noteq> []" "set s \<inter> set w = {}" "\<not> sublist w b"
  shows "\<not> sublist w (s @ b)"
  using assms(2)
proof (induction s)
  case Nil
  then show ?case using assms(3) by simp
next
  case (Cons c s)
  then have "c \<notin> set w" "\<not> sublist w (s @ b)" by auto
  then show ?case using no_sublist_Cons [OF assms(1)] by simp
qed

lemma no_sublist_glue:
  assumes "d \<notin> set w" "\<not> sublist w a" "\<not> sublist w b"
  shows "\<not> sublist w (a @ d # b)"
proof
  assume "sublist w (a @ d # b)"
  have w: "w \<noteq> []" using assms(2) by auto
  from \<open>sublist w (a @ d # b)\<close> assms(2) no_sublist_Cons [OF w assms(1,3)]
  obtain xs1 xs2 where x: "w = xs1 @ xs2" "suffix xs1 a" "prefix xs2 (d # b)"
    unfolding sublist_append by blast
  show False
  proof (cases xs2)
    case Nil
    with x have "suffix w a" by simp
    then show False using assms(2) by auto
  next
    case (Cons y ys)
    with x(3) have "y = d" by simp
    with Cons x(1) assms(1) show False by simp
  qed
qed

lemma no_sublist_seg:
  assumes "CHR '' '' \<notin> set w" "\<not> sublist w a" "seg w b"
  shows "\<not> sublist w (a @ b)"
proof (cases "b = []")
  case True
  then show ?thesis using assms(2) by simp
next
  case False
  with assms(3) obtain x' where x': "b = CHR '' '' # x'" "\<not> sublist w x'"
    unfolding seg_def by blast
  show ?thesis unfolding x'(1) by (rule no_sublist_glue [OF assms(1,2) x'(2)])
qed

lemma no_sublist_join:
  assumes "w \<noteq> []" "d \<notin> set w" "set sep \<inter> set w = {}" "\<forall>x \<in> set xs. \<not> sublist w x"
  shows "\<not> sublist w (join (d # sep) xs)"
  using assms(4)
proof (induction xs rule: induct_list012)
  case 1
  then show ?case using assms(1) by simp
next
  case (2 x)
  then show ?case by simp
next
  case (3 x y ys)
  have "\<not> sublist w (join (d # sep) (y # ys))" using 3 by simp
  then have "\<not> sublist w (sep @ join (d # sep) (y # ys))"
    by (rule no_sublist_prepend [OF assms(1,3)])
  then have "\<not> sublist w (x @ d # sep @ join (d # sep) (y # ys))"
    using no_sublist_glue [OF assms(2)] 3 by simp
  then show ?case by simp
qed

lemma natToString_digits: "set (natToString n) \<subseteq> set ''0123456789''"
proof (induction n rule: natToString.induct)
  case (1 n)
  have d: "digit k \<in> set ''0123456789''" if "k < 10" for k
    unfolding digit_def by (rule nth_mem) (use that in simp)
  show ?case
  proof (cases "n < 10")
    case True
    then show ?thesis using d [of n] by (subst natToString.simps) simp
  next
    case False
    have "n mod 10 < 10" by simp
    then show ?thesis using False 1 d [of "n mod 10"] by (subst natToString.simps) simp
  qed
qed

lemma natToString_numChar: "\<forall>c \<in> set (natToString n). numChar c"
proof
  fix c assume "c \<in> set (natToString n)"
  then have "c \<in> set ''0123456789''" using natToString_digits by blast
  then show "numChar c" unfolding numChar_def by auto
qed

lemma exponentForm_numChar:
  assumes "\<forall>c \<in> set ds. numChar c"
  shows "\<forall>c \<in> set (exponentForm ds). numChar c"
proof (cases "rev (dropWhile (\<lambda>c. c = CHR ''0'') (rev ds))")
  case Nil
  show ?thesis unfolding exponentForm_def Nil by simp
next
  case (Cons x xs)
  have "set (rev (dropWhile (\<lambda>c. c = CHR ''0'') (rev ds))) \<subseteq> set ds"
    by (auto dest: set_dropWhileD)
  then have "set (x # xs) \<subseteq> set ds" unfolding Cons .
  with assms have x: "numChar x" and xs: "\<forall>c \<in> set xs. numChar c" by auto
  have e: "numChar CHR ''.''" "numChar CHR ''e''" "numChar CHR ''+''"
    by (simp_all add: numChar_def)
  have eq: "exponentForm ds
      = x # (if xs = [] then [] else CHR ''.'' # xs) @ ''e+'' @ natToString (length ds - 1)"
    unfolding exponentForm_def Cons by simp
  show ?thesis
    unfolding eq using x xs e natToString_numChar [of "length ds - 1"] by auto
qed

lemma magnitudeToString_numChar: "\<forall>c \<in> set (magnitudeToString n). numChar c"
proof -
  define d where "d = toDouble n"
  define ds where "ds = natToString (if bitLength d \<le> 53 then d else shortestDecimal d)"
  have eq: "magnitudeToString n
      = (if 2 ^ 1024 \<le> d then ''Infinity'' else if length ds \<le> 21 then ds else exponentForm ds)"
    unfolding magnitudeToString_def Let_def d_def ds_def by (rule refl)
  have i: "\<forall>c \<in> set ''Infinity''. numChar c" by (simp add: numChar_def)
  have n: "\<forall>c \<in> set ds. numChar c" unfolding ds_def by (rule natToString_numChar)
  have x: "\<forall>c \<in> set (exponentForm ds). numChar c" by (rule exponentForm_numChar [OF n])
  show ?thesis
  proof (cases "2 ^ 1024 \<le> d")
    case True
    then have "magnitudeToString n = ''Infinity''" unfolding eq by (simp only: if_True)
    then show ?thesis using i by (simp only:)
  next
    case False
    then have "magnitudeToString n = (if length ds \<le> 21 then ds else exponentForm ds)"
      unfolding eq by (simp only: if_False)
    then show ?thesis using n x by (cases "length ds \<le> 21") (simp_all only: if_True if_False)
  qed
qed

lemma numberToString_numChar: "\<forall>c \<in> set (numberToString x). numChar c"
proof (cases x)
  case NaN
  then show ?thesis by (simp add: numChar_def)
next
  case (Num i)
  have "numChar CHR ''-''" by (simp add: numChar_def)
  then show ?thesis using Num magnitudeToString_numChar [of "nat \<bar>i\<bar>"] by auto
qed

lemma no_WHERE_number: "\<not> sublist ''WHERE'' (numberToString x)"
proof
  assume "sublist ''WHERE'' (numberToString x)"
  then have "set ''WHERE'' \<subseteq> set (numberToString x)" by (rule set_mono_sublist)
  then have "CHR ''W'' \<in> set (numberToString x)" by simp
  then have "numChar CHR ''W''" using numberToString_numChar by blast
  then show False by (simp add: numChar_def)
qed

lemma seg_limitClause: "seg ''WHERE'' (limitClause b)"
proof -
  have "\<not> sublist ''WHERE'' (''LIMIT'' @ CHR '' '' # numberToString n)" for n
    by (rule no_sublist_glue) (simp_all add: no_WHERE_number sublist_Cons_right)
  then show ?thesis by (simp add: seg_def limitClause_def split: option.splits)
qed

lemma seg_fromClause:
  assumes "\<forall>obj. selectedObject b = Some obj \<longrightarrow> \<not> sublist ''WHERE'' obj"
  shows "seg ''WHERE'' (fromClause b)"
proof -
  have "\<not> sublist ''WHERE'' (''FROM'' @ CHR '' '' # obj)" if "selectedObject b = Some obj" for obj
    by (rule no_sublist_glue) (use assms that in \<open>simp_all add: sublist_Cons_right\<close>)
  then show ?thesis by (simp add: seg_def fromClause_def split: option.splits)
qed

lemma seg_orderByClause:
  assumes "\<forall>k \<in> set (orderBy b). \<not> sublist ''WHERE'' (sort_field k) \<and> \<not> sublist ''WHERE'' (sort_direction k)"
  shows "seg ''WHERE'' (orderByClause b)"
proof -
  have k: "\<not> sublist ''WHERE'' (sort_field k @ CHR '' '' # sort_direction k)" if "k \<in> set (orderBy b)" for k
    by (rule no_sublist_glue) (use assms that in simp_all)
  have "\<not> sublist ''WHERE'' (join (CHR '','' # '' '') (map (\<lambda>k. sort_field k @ '' '' @ sort_direction k) (orderBy b)))"
    by (rule no_sublist_join) (use k in auto)
  then have "\<not> sublist ''WHERE'' (''BY'' @ CHR '' '' # join '', '' (map (\<lambda>k. sort_field k @ '' '' @ sort_direction k) (orderBy b)))"
    by (intro no_sublist_glue) (simp_all add: sublist_Cons_right)
  then have "\<not> sublist ''WHERE'' (''ORDER'' @ CHR '' '' # ''BY'' @ CHR '' '' # join '', '' (map (\<lambda>k. sort_field k @ '' '' @ sort_direction k) (orderBy b)))"
    by (intro no_sublist_glue) (simp_all add: sublist_Cons_right)
  then show ?thesis by (simp add: seg_def orderByClause_def)
qed

lemma no_WHERE_selectClause:
  assumes "\<forall>f \<in> set (selectedFields b). \<not> sublist ''WHERE'' f"
  shows "\<not> sublist ''WHERE'' (selectClause b)"
proof -
  have "\<not> sublist ''WHERE'' (join (CHR '','' # '' '') (selectedFields b))"
    by (rule no_sublist_join) (use assms in auto)
  moreover have "\<not> sublist ''WHERE'' ''Id''" by (simp add: sublist_Cons_right)
  ultimately have "\<not> sublist ''WHERE'' (''SELECT'' @ CHR '' '' #
      (if length (selectedFields b) = 0 then ''Id'' else join '', '' (selectedFields b)))"
    by (intro no_sublist_glue) (simp_all add: sublist_Cons_right)
  then show ?thesis by (simp add: selectClause_def)
qed

text \<open>
  C3, as the code has it: for a builder state without conditions in which neither the
  selected object, nor a selected field, nor a field or direction of \<open>orderBy\<close> contains
  \<open>WHERE\<close>, the string that \<open>buildQuery\<close> returns contains no \<open>WHERE\<close>.
\<close>

theorem buildQuery_no_conditions_no_WHERE:
  assumes "conditions b = []"
    and "\<forall>obj. selectedObject b = Some obj \<longrightarrow> \<not> str_includes obj ''WHERE''"
    and "\<forall>f \<in> set (selectedFields b). \<not> str_includes f ''WHERE''"
    and "\<forall>k \<in> set (orderBy b). \<not> str_includes (sort_field k) ''WHERE''
            \<and> \<not> str_includes (sort_direction k) ''WHERE''"
  shows "\<exists>q. buildQuery b = Inr q \<and> \<not> str_includes q ''WHERE''"
proof -
  have q: "buildQuery b = Inr (((selectClause b @ fromClause b) @ orderByClause b) @ limitClause b)"
    using assms(1) by (simp add: buildQuery_def conditionsClause_def)
  have sp: "CHR '' '' \<notin> set ''WHERE''" by simp
  have "\<not> sublist ''WHERE'' (selectClause b)"
    using assms(3) by (intro no_WHERE_selectClause) (simp add: str_includes_sublist)
  moreover have "seg ''WHERE'' (fromClause b)"
    using assms(2) by (intro seg_fromClause) (simp add: str_includes_sublist)
  ultimately have "\<not> sublist ''WHERE'' (selectClause b @ fromClause b)"
    by (rule no_sublist_seg [OF sp])
  moreover have "seg ''WHERE'' (orderByClause b)"
    using assms(4) by (intro seg_orderByClause) (simp add: str_includes_sublist)
  ultimately have "\<not> sublist ''WHERE'' ((selectClause b @ fromClause b) @ orderByClause b)"
    by (rule no_sublist_seg [OF sp])
  then have "\<not> sublist ''WHERE'' (((selectClause b @ fromClause b) @ orderByClause b) @ limitClause b)"
    using seg_limitClause by (rule no_sublist_seg [OF sp])
  then show ?thesis unfolding q by (simp add: str_includes_sublist)
qed

theorem buildQuery_no_conditions_no_WHERE_witness:
  "\<exists>q. buildQuery \<lparr>conditions = [], selectedObject = Some ''Account'', selectedFields = [''Id'', ''Name''],
      orderBy = [\<lparr>sort_field = ''Name'', sort_direction = ''ASC''\<rparr>], limit = Some (Num 10),
      groupOperator = ''AND''\<rparr> = Inr q \<and> \<not> str_includes q ''WHERE''"
  by (rule buildQuery_no_conditions_no_WHERE) (simp_all add: str_includes_sublist sublist_Cons_right)

text \<open>
  C3 as stated, for every selected object, fails: an object whose name contains \<open>WHERE\<close>
  puts it into the query.
\<close>

theorem buildQuery_no_conditions_counterexample:
  "buildQuery \<lparr>conditions = [], selectedObject = Some ''WHEREABOUTS__c'', selectedFields = [],
      orderBy = [], limit = None, groupOperator = ''AND''\<rparr> = Inr ''SELECT Id FROM WHEREABOUTS__c''
   \<and> str_includes ''SELECT Id FROM WHEREABOUTS__c'' ''WHERE''"
  by (simp add: buildQuery_def conditionsClause_def selectClause_def fromClause_def orderByClause_def
      limitClause_def str_includes_sublist sublist_Cons_right)

subsection \<open>Grouping of conditions\<close>







subsection \<open>Counting the operators of a WHERE clause\<close>

























text \<open>
  A group id that names a member of \<^verbatim>\<open>Object.prototype\<close> is not grouped: the lookup
  \<^verbatim>\<open>acc[groupId]\<close> finds the inherited member, no array is created for the group, and
  \<open>buildQuery\<close> ends in a \<^verbatim>\<open>TypeError\<close>.  The conditions that the application builds carry
  no group id at all.
\<close>

lemma buildQuery_prototype_group_id:
  "buildQuery \<lparr>conditions =
       [\<lparr>cond_field = ''Name'', cond_operator = ''='', cond_value = ''Acme'', cond_type = ''string'',
         cond_groupId = Some ''constructor''\<rparr>],
      selectedObject = Some ''Account'', selectedFields = [], orderBy = [], limit = None,
      groupOperator = ''AND''\<rparr>
   = Inl TypeError"
  by (simp add: buildQuery_def conditionsClause_def groupStep_def groupKey_def objectPrototypeKeys_def)

text \<open>
  An instance: three conditions in the groups \<open>g\<close>, \<open>7\<close> and \<open>g\<close>.  The key \<open>7\<close> is an array
  index and comes first.
\<close>

lemma buildQuery_groups_example:
  "buildQuery \<lparr>conditions =
       [\<lparr>cond_field = ''A'', cond_operator = ''='', cond_value = ''1'', cond_type = ''number'', cond_groupId = Some ''g''\<rparr>,
        \<lparr>cond_field = ''B'', cond_operator = ''='', cond_value = ''2'', cond_type = ''number'', cond_groupId = Some ''7''\<rparr>,
        \<lparr>cond_field = ''C'', cond_operator = ''='', cond_value = ''x'', cond_type = ''string'', cond_groupId = Some ''g''\<rparr>],
      selectedObject = Some ''Account'', selectedFields = [''Name''], orderBy = [], limit = None,
      groupOperator = ''OR''\<rparr>
   = Inr (''SELECT Name FROM Account WHERE B = 2 OR (A = 1 OR C = '' @ [sq] @ ''x'' @ [sq] @ '')'')"
proof -
  let ?a = "\<lparr>cond_field = ''A'', cond_operator = ''='', cond_value = ''1'', cond_type = ''number'', cond_groupId = Some ''g''\<rparr>"
  let ?b = "\<lparr>cond_field = ''B'', cond_operator = ''='', cond_value = ''2'', cond_type = ''number'', cond_groupId = Some ''7''\<rparr>"
  let ?c = "\<lparr>cond_field = ''C'', cond_operator = ''='', cond_value = ''x'', cond_type = ''string'', cond_groupId = Some ''g''\<rparr>"
  have r: "reduceGroups [] [?a, ?b, ?c] = Inr [(''g'', [?a, ?c]), (''7'', [?b])]"
    by (simp add: groupStep_def groupKey_def objectPrototypeKeys_def Let_def)
  have i: "arrayIndex ''g'' = None" "arrayIndex ''7'' = Some 7"
    by (simp_all add: arrayIndex_def isDigit_def digitsValue_def)
  have e: "objectEntries [(''g'', [?a, ?c]), (''7'', [?b])] = [(''7'', [?b]), (''g'', [?a, ?c])]"
    by (simp add: objectEntries_def i)
  show ?thesis
    supply reduceGroups.simps [simp del]
    by (simp add: buildQuery_def conditionsClause_def r e groupString_def conditionString_def
        formatValue_def selectClause_def fromClause_def orderByClause_def limitClause_def sq_def)
qed



subsection \<open>QueryOptimizer\<close>

lemma foldl_unindexedStep:
  "foldl (unindexedStep metadata) acc toks
     = acc @ map notIndexedSuggestion (filter (unindexed metadata) toks)"
  by (induction toks arbitrary: acc) (simp_all add: unindexedStep_def unindexed_def split: option.splits)

lemma rxMatch_lit:
  "rxMatch ic (lit w) s cap k = (if litAt ic w s then k (drop (length w) s) cap else None)"
proof (induction w arbitrary: s)
  case Nil
  then show ?case by (simp add: litAt_def lit.simps)
next
  case (Cons x w)
  show ?case
  proof (cases s)
    case Nil
    then show ?thesis by (simp add: litAt_def lit.simps)
  next
    case (Cons c cs)
    then show ?thesis using Cons.IH [of cs] by (simp add: litAt_def lit.simps)
  qed
qed

lemma matchAt_lit: "matchAt ic (lit w) s \<noteq> None \<longleftrightarrow> litAt ic w s"
  by (simp add: matchAt_def rxMatch_lit)

lemma matchAt_whereRe: "matchAt ic whereRe s \<noteq> None \<Longrightarrow> litAt ic ''WHERE'' s"
  unfolding matchAt_def whereRe_def rxMatch.simps(5) [of ic "lit ''WHERE''"] rxMatch_lit
  by (simp split: if_splits)

lemma regexExec_whereRe:
  "regexExec ic whereRe s \<noteq> None \<Longrightarrow> regexExec ic (lit ''WHERE'') s \<noteq> None"
proof (induction s)
  case Nil
  then have "matchAt ic whereRe [] \<noteq> None" by (simp add: regexExec.simps)
  then have "matchAt ic (lit ''WHERE'') [] \<noteq> None"
    using matchAt_whereRe [of ic "[]"] matchAt_lit [of ic "''WHERE''" "[]"] by blast
  then show ?case by (simp add: regexExec.simps)
next
  case (Cons c cs)
  show ?case
  proof (cases "matchAt ic whereRe (c # cs)")
    case None
    with Cons.prems have "regexExec ic whereRe cs \<noteq> None" by (simp add: regexExec.simps)
    then have "regexExec ic (lit ''WHERE'') cs \<noteq> None" by (rule Cons.IH)
    then show ?thesis by (simp add: regexExec.simps split: option.splits)
  next
    case (Some res)
    then have "matchAt ic (lit ''WHERE'') (c # cs) \<noteq> None"
      using matchAt_whereRe [of ic "c # cs"] matchAt_lit [of ic "''WHERE''" "c # cs"] by simp
    then show ?thesis by (auto simp: regexExec.simps split: option.splits)
  qed
qed

lemma analyzeQuery_concat:
  "analyzeQuery query objs fm =
     (if regexTest True selectStarRe query then [selectStarSuggestion] else [])
     @ (if \<not> regexTest True (lit ''WHERE'') query \<and> \<not> regexTest True (lit ''LIMIT'') query
        then [tooManyRecordsSuggestion] else [])
     @ (case (regexExec True whereRe query, fm) of
          (Some (m, Some whereClause), Some metadata) \<Rightarrow>
            map notIndexedSuggestion (filter (unindexed metadata) (matchAll False fieldTokenRe whereClause))
        | _ \<Rightarrow> [])
     @ (if regexTest True (lit ''ORDER BY'') query \<and> \<not> regexTest True (lit ''LIMIT'') query
        then [orderByNoLimitSuggestion] else [])"
  unfolding analyzeQuery_def Let_def
  by (simp add: foldl_unindexedStep split: option.splits prod.splits)

lemma tooMany_excludes_notIndexed:
  assumes "tooManyRecordsSuggestion \<in> set (analyzeQuery query objs fm)"
  shows "notIndexedSuggestion field \<notin> set (analyzeQuery query objs fm)"
proof -
  have neq: "tooManyRecordsSuggestion \<noteq> selectStarSuggestion"
    "tooManyRecordsSuggestion \<noteq> orderByNoLimitSuggestion"
    "tooManyRecordsSuggestion \<noteq> notIndexedSuggestion f"
    "notIndexedSuggestion f \<noteq> tooManyRecordsSuggestion"
    "notIndexedSuggestion f \<noteq> selectStarSuggestion"
    "notIndexedSuggestion f \<noteq> orderByNoLimitSuggestion" for f
    by (simp_all add: tooManyRecordsSuggestion_def selectStarSuggestion_def
        orderByNoLimitSuggestion_def notIndexedSuggestion_def)
  have "\<not> regexTest True (lit ''WHERE'') query"
  proof
    assume w: "regexTest True (lit ''WHERE'') query"
    from assms show False
      unfolding analyzeQuery_concat using w neq
      by (auto split: option.splits prod.splits if_splits)
  qed
  then have "regexExec True whereRe query = None"
    using regexExec_whereRe [of True query] unfolding regexTest_def by blast
  then show ?thesis
    unfolding analyzeQuery_concat using neq by (auto split: if_splits)
qed

lemma account_tests:
  "regexTest True selectStarRe ''SELECT * FROM Account''"
  "\<not> regexTest True (lit ''WHERE'') ''SELECT * FROM Account''"
  "\<not> regexTest True (lit ''LIMIT'') ''SELECT * FROM Account''"
  "\<not> regexTest True (lit ''ORDER BY'') ''SELECT * FROM Account''"
  "regexExec True whereRe ''SELECT * FROM Account'' = None"
  by code_simp+

lemma ordered_tests:
  "regexTest True selectStarRe ''select * from Account order by Name''"
  "\<not> regexTest True (lit ''WHERE'') ''select * from Account order by Name''"
  "\<not> regexTest True (lit ''LIMIT'') ''select * from Account order by Name''"
  "regexTest True (lit ''ORDER BY'') ''select * from Account order by Name''"
  "regexExec True whereRe ''select * from Account order by Name'' = None"
  by code_simp+

lemma filtered_tests:
  "regexTest True selectStarRe ''SELECT * FROM Account WHERE Name = 1 ORDER BY Name''"
  "regexTest True (lit ''WHERE'') ''SELECT * FROM Account WHERE Name = 1 ORDER BY Name''"
  "\<not> regexTest True (lit ''LIMIT'') ''SELECT * FROM Account WHERE Name = 1 ORDER BY Name''"
  "regexTest True (lit ''ORDER BY'') ''SELECT * FROM Account WHERE Name = 1 ORDER BY Name''"
  "regexExec True whereRe ''SELECT * FROM Account WHERE Name = 1 ORDER BY Name''
     = Some (''WHERE Name = 1 ORDER BY'', Some ''Name = 1'')"
  "matchAll False fieldTokenRe ''Name = 1'' = [''Name'', ''1'']"
  by code_simp+

text \<open>
  C5, as the code has it: for every query, \<open>analyzeQuery\<close> returns the outputs of its four
  checks in their fixed order, each a function of the query (and the field metadata)
  alone: (1) \<open>SELECT *\<close> matched without regard to case, (2) neither \<open>WHERE\<close> nor \<open>LIMIT\<close>,
  (3) one info suggestion per field token of the WHERE clause that the field metadata
  lists as not indexed, (4) \<open>ORDER BY\<close> without \<open>LIMIT\<close>.  Checks (1), (2) and (4) fire
  together, and so do (1), (3) and (4); checks (2) and (3) never fire on the same query.
  For \<open>SELECT * FROM Account\<close> the result holds exactly one suggestion of type performance
  and severity warning about \<open>SELECT *\<close>.
\<close>

theorem analyzeQuery_checks:
  "analyzeQuery query objs fm =
     (if regexTest True selectStarRe query then [selectStarSuggestion] else [])
     @ (if \<not> regexTest True (lit ''WHERE'') query \<and> \<not> regexTest True (lit ''LIMIT'') query
        then [tooManyRecordsSuggestion] else [])
     @ (case (regexExec True whereRe query, fm) of
          (Some (m, Some whereClause), Some metadata) \<Rightarrow>
            map notIndexedSuggestion (filter (unindexed metadata) (matchAll False fieldTokenRe whereClause))
        | _ \<Rightarrow> [])
     @ (if regexTest True (lit ''ORDER BY'') query \<and> \<not> regexTest True (lit ''LIMIT'') query
        then [orderByNoLimitSuggestion] else [])
   \<and> analyzeQuery ''select * from Account order by Name'' objs fm
       = [selectStarSuggestion, tooManyRecordsSuggestion, orderByNoLimitSuggestion]
   \<and> analyzeQuery ''SELECT * FROM Account WHERE Name = 1 ORDER BY Name'' objs
         (Some [\<lparr>fld_name = ''Name'', fld_label = ''Name'', fld_type = ''string'', fld_indexed = False\<rparr>])
       = [selectStarSuggestion, notIndexedSuggestion ''Name'', orderByNoLimitSuggestion]
   \<and> (tooManyRecordsSuggestion \<in> set (analyzeQuery query objs fm) \<longrightarrow>
        notIndexedSuggestion field \<notin> set (analyzeQuery query objs fm))
   \<and> analyzeQuery ''SELECT * FROM Account'' objs fm = [selectStarSuggestion, tooManyRecordsSuggestion]
   \<and> length (filter (\<lambda>s. sug_type s = ''performance'' \<and> sug_severity s = ''warning''
                          \<and> str_includes (sug_message s) ''SELECT *'')
         (analyzeQuery ''SELECT * FROM Account'' objs fm)) = 1"
proof -
  have a: "analyzeQuery ''SELECT * FROM Account'' objs fm = [selectStarSuggestion, tooManyRecordsSuggestion]"
    unfolding analyzeQuery_concat by (simp only: account_tests) simp
  have b: "analyzeQuery ''select * from Account order by Name'' objs fm
       = [selectStarSuggestion, tooManyRecordsSuggestion, orderByNoLimitSuggestion]"
    unfolding analyzeQuery_concat by (simp only: ordered_tests) simp
  have c: "analyzeQuery ''SELECT * FROM Account WHERE Name = 1 ORDER BY Name'' objs
         (Some [\<lparr>fld_name = ''Name'', fld_label = ''Name'', fld_type = ''string'', fld_indexed = False\<rparr>])
       = [selectStarSuggestion, notIndexedSuggestion ''Name'', orderByNoLimitSuggestion]"
    unfolding analyzeQuery_concat
    by (simp only: filtered_tests option.case prod.case) (simp add: unindexed_def)
  have d1: "str_includes (sug_message selectStarSuggestion) ''SELECT *''"
    unfolding selectStarSuggestion_def by code_simp
  have d2: "\<not> str_includes (sug_message tooManyRecordsSuggestion) ''SELECT *''"
    unfolding tooManyRecordsSuggestion_def by code_simp
  have d: "length (filter (\<lambda>s. sug_type s = ''performance'' \<and> sug_severity s = ''warning''
                          \<and> str_includes (sug_message s) ''SELECT *'')
         (analyzeQuery ''SELECT * FROM Account'' objs fm)) = 1"
    unfolding a using d1 d2 by (simp add: selectStarSuggestion_def)
  show ?thesis
    using analyzeQuery_concat [of query objs fm] a b c d
      tooMany_excludes_notIndexed [of query objs fm field]
    by blast
qed

theorem analyzeQuery_checks_witness:
  "tooManyRecordsSuggestion \<in> set (analyzeQuery ''SELECT * FROM Account'' [] None)
   \<and> notIndexedSuggestion ''Name'' \<notin> set (analyzeQuery ''SELECT * FROM Account'' [] None)"
proof -
  note t = analyzeQuery_checks [of "''SELECT * FROM Account''" "[]" None "''Name''"]
  from t have eq: "analyzeQuery ''SELECT * FROM Account'' [] None
      = [selectStarSuggestion, tooManyRecordsSuggestion]"
    by blast
  have "tooManyRecordsSuggestion \<in> set (analyzeQuery ''SELECT * FROM Account'' [] None)"
    unfolding eq by simp
  with t show ?thesis by blast
qed

text \<open>
  C5 as stated, with all checks firing at once, fails: no query makes check (2) and
  check (3) fire together, so the four never all fire.
\<close>

theorem analyzeQuery_all_fire_counterexample:
  "\<not> (\<exists>query objs fm field.
        selectStarSuggestion \<in> set (analyzeQuery query objs fm)
        \<and> tooManyRecordsSuggestion \<in> set (analyzeQuery query objs fm)
        \<and> notIndexedSuggestion field \<in> set (analyzeQuery query objs fm)
        \<and> orderByNoLimitSuggestion \<in> set (analyzeQuery query objs fm))"
  using tooMany_excludes_notIndexed by blast

subsection \<open>QueryValidator\<close>

lemma unknown_includes:
  "str_includes ''SELECT Foo FROM Unknown'' ''SELECT''"
  "str_includes ''SELECT Foo FROM Unknown'' ''FROM''"
  by code_simp+

lemma unknown_fromMatch:
  "regexExec True fromRe ''SELECT Foo FROM Unknown'' = Some (''FROM Unknown'', Some ''Unknown'')"
  by code_simp

lemma unknown_selectMatch:
  "regexExec True selectRe ''SELECT Foo FROM Unknown'' = Some (''SELECT Foo FROM'', Some ''Foo'')"
  by code_simp

lemma unknown_whereMatch:
  "regexExec True whereRe ''SELECT Foo FROM Unknown'' = None"
  by code_simp

lemma unknown_fields: "map trim (split (CHR '','') ''Foo'') = [''Foo'']"
  by code_simp

text \<open>
  C6: for the query \<open>SELECT Foo FROM Unknown\<close>, object metadata without an object named
  \<open>Unknown\<close> and an empty list of field metadata, \<open>validateQuery\<close> returns exactly two
  errors: the unknown object first, the unknown field second.
\<close>

theorem validateQuery_unknown_object_and_field:
  assumes "''Unknown'' \<notin> obj_name ` set objs"
  shows "validateQuery ''SELECT Foo FROM Unknown'' objs (Some [])
           = [''Object \"Unknown\" not found'', ''Field \"Foo\" not found'']"
proof -
  have none: "find (\<lambda>obj. obj_name obj = ''Unknown'') objs = None"
    using assms unfolding find_None_iff by (metis imageI)
  have "validateQuery ''SELECT Foo FROM Unknown'' objs (Some [])
      = foldl (fieldStep (Some []))
          (if find (\<lambda>obj. obj_name obj = ''Unknown'') objs = None
           then [] @ [''Object \"'' @ ''Unknown'' @ ''\" not found''] else []) [''Foo'']"
    by (simp only: validateQuery_def Let_def unknown_includes unknown_fromMatch unknown_selectMatch
        unknown_whereMatch unknown_fields option.case prod.case simp_thms if_False)
  with none show ?thesis by (simp add: fieldStep_def)
qed

theorem validateQuery_unknown_object_and_field_witness:
  "validateQuery ''SELECT Foo FROM Unknown'' [\<lparr>obj_name = ''Account'', obj_label = ''Account''\<rparr>] (Some [])
     = [''Object \"Unknown\" not found'', ''Field \"Foo\" not found'']"
  by (rule validateQuery_unknown_object_and_field) simp

lemma fieldStep_keeps:
  assumes "''Query must include SELECT and FROM clauses'' \<notin> set errors"
  shows "''Query must include SELECT and FROM clauses'' \<notin> set (fieldStep fm errors field)"
  using assms by (simp add: fieldStep_def)

lemma foldl_fieldStep_keeps:
  assumes "''Query must include SELECT and FROM clauses'' \<notin> set errors"
  shows "''Query must include SELECT and FROM clauses'' \<notin> set (foldl (fieldStep fm) errors xs)"
  using assms by (induction xs arbitrary: errors) (simp_all add: fieldStep_keeps)

text \<open>
  C4, as the code has it: \<open>validateQuery\<close> returns the single error
  \<open>Query must include SELECT and FROM clauses\<close> when the query lacks at least one of the
  tokens \<open>SELECT\<close> and \<open>FROM\<close> (a case-sensitive substring test); that error is then the
  whole result.  When the query contains both tokens, the error is not in the result.
\<close>

theorem validateQuery_requires_SELECT_and_FROM:
  "(\<not> str_includes query ''SELECT'' \<or> \<not> str_includes query ''FROM'' \<longrightarrow>
      validateQuery query objs fm = [''Query must include SELECT and FROM clauses''])
   \<and> (str_includes query ''SELECT'' \<and> str_includes query ''FROM'' \<longrightarrow>
      ''Query must include SELECT and FROM clauses'' \<notin> set (validateQuery query objs fm))"
proof (intro conjI impI)
  assume "\<not> str_includes query ''SELECT'' \<or> \<not> str_includes query ''FROM''"
  then show "validateQuery query objs fm = [''Query must include SELECT and FROM clauses'']"
    unfolding validateQuery_def Let_def by auto
next
  let ?msg = "''Query must include SELECT and FROM clauses''"
  assume both: "str_includes query ''SELECT'' \<and> str_includes query ''FROM''"
  define errors1 where "errors1 =
    (case regexExec True fromRe query of
       Some (m, Some objectName) \<Rightarrow>
         (if find (\<lambda>obj. obj_name obj = objectName) objs = None
          then [] @ [''Object \"'' @ objectName @ ''\" not found''] else [])
     | _ \<Rightarrow> [])"
  define errors2 where "errors2 =
    (case regexExec True selectRe query of
       Some (m, Some fieldList) \<Rightarrow>
         foldl (fieldStep fm) errors1 (map trim (split (CHR '','') fieldList))
     | _ \<Rightarrow> errors1)"
  have v: "validateQuery query objs fm =
    (case regexExec True whereRe query of
       Some (m, Some whereClause) \<Rightarrow>
         (if countChar (CHR ''('') whereClause \<noteq> countChar (CHR '')'') whereClause
          then errors2 @ [''Unmatched parentheses in WHERE clause''] else errors2)
     | _ \<Rightarrow> errors2)"
    using both unfolding validateQuery_def Let_def errors1_def errors2_def by simp
  have 1: "?msg \<notin> set errors1"
    unfolding errors1_def by (simp split: option.splits prod.splits)
  have 2: "?msg \<notin> set errors2"
    unfolding errors2_def using 1 by (simp add: foldl_fieldStep_keeps split: option.splits prod.splits)
  show "?msg \<notin> set (validateQuery query objs fm)"
    unfolding v using 2 by (simp split: option.splits prod.splits)
qed

theorem validateQuery_requires_SELECT_and_FROM_witness:
  "validateQuery ''select Id from Account'' [] None = [''Query must include SELECT and FROM clauses'']
   \<and> ''Query must include SELECT and FROM clauses'' \<notin> set (validateQuery ''SELECT Id FROM Account'' [] None)"
proof -
  have a: "\<not> str_includes ''select Id from Account'' ''SELECT''" by code_simp
  have b: "str_includes ''SELECT Id FROM Account'' ''SELECT''" by code_simp
  have c: "str_includes ''SELECT Id FROM Account'' ''FROM''" by code_simp
  show ?thesis
    using validateQuery_requires_SELECT_and_FROM [of "''select Id from Account''" "[]" None]
      validateQuery_requires_SELECT_and_FROM [of "''SELECT Id FROM Account''" "[]" None] a b c
    by blast
qed

text \<open>
  C4 as stated, with the error returned exactly when both tokens are missing, fails: the
  query \<open>SELECT Id\<close> contains \<open>SELECT\<close>, so it does not lack both tokens, and is rejected
  with the same single error.
\<close>

theorem validateQuery_lacks_one_counterexample:
  "str_includes ''SELECT Id'' ''SELECT''
   \<and> validateQuery ''SELECT Id'' [] None = [''Query must include SELECT and FROM clauses'']"
proof -
  have a: "str_includes ''SELECT Id'' ''SELECT''" by code_simp
  have b: "\<not> str_includes ''SELECT Id'' ''FROM''" by code_simp
  show ?thesis using a b unfolding validateQuery_def Let_def by simp
qed

subsection \<open>Persistence stores\<close>

lemma add_step:
  assumes "QueryHistory_getAll this store = Inr (JArr h)"
  shows "QueryHistory_add this q t store
           = Inr (setItem store (qh_storageKey this)
                   (JArr (if length h \<ge> maxSize this then butlast (historyEntry q t # h)
                          else historyEntry q t # h)))"
  using assms by (simp add: QueryHistory_add_def Let_def less_Suc_eq_le)

lemma getAll_setItem:
  "QueryHistory_getAll this (setItem store (qh_storageKey this) (JArr h)) = Inr (JArr h)"
  by (simp add: QueryHistory_getAll_def getItem_def setItem_def)

lemma add_step_bounded:
  assumes "QueryHistory_getAll this store = Inr (JArr h)" "length h \<le> maxSize this"
  shows "\<exists>store'. QueryHistory_add this q t store = Inr store'
     \<and> QueryHistory_getAll this store' = Inr (JArr (take (maxSize this) (historyEntry q t # h)))"
proof -
  let ?h1 = "historyEntry q t # h"
  have "(if length h \<ge> maxSize this then butlast ?h1 else ?h1) = take (maxSize this) ?h1"
  proof (cases "length h \<ge> maxSize this")
    case True
    with assms(2) have "maxSize this = length h" by simp
    then show ?thesis by (simp add: butlast_conv_take)
  next
    case False
    then show ?thesis by simp
  qed
  then show ?thesis
    using add_step [OF assms(1), of q t] getAll_setItem by simp
qed

lemma addAll_from:
  assumes "QueryHistory_getAll this store = Inr (JArr h)" "length h \<le> maxSize this"
  shows "\<exists>store'. QueryHistory_addAll this es store = Inr store'
     \<and> QueryHistory_getAll this store'
         = Inr (JArr (take (maxSize this) (rev (map (\<lambda>(q, t). historyEntry q t) es) @ h)))"
  using assms
proof (induction es arbitrary: store h)
  case Nil
  then show ?case by simp
next
  case (Cons e es)
  obtain q t where e: "e = (q, t)" by (cases e)
  from add_step_bounded [OF Cons.prems, of q t] obtain s1 where
    s1: "QueryHistory_add this q t store = Inr s1"
        "QueryHistory_getAll this s1 = Inr (JArr (take (maxSize this) (historyEntry q t # h)))"
    by blast
  have len: "length (take (maxSize this) (historyEntry q t # h)) \<le> maxSize this" by simp
  from Cons.IH [OF s1(2) len] obtain s2 where
    s2: "QueryHistory_addAll this es s1 = Inr s2"
        "QueryHistory_getAll this s2 = Inr (JArr (take (maxSize this)
           (rev (map (\<lambda>(q, t). historyEntry q t) es) @ take (maxSize this) (historyEntry q t # h))))"
    by blast
  have "take (maxSize this) (rev (map (\<lambda>(q, t). historyEntry q t) es) @ take (maxSize this) (historyEntry q t # h))
      = take (maxSize this) (rev (map (\<lambda>(q, t). historyEntry q t) (e # es)) @ h)"
    by (simp add: e min_def take_Cons' split: nat.splits) 
  with s1 s2 show ?case by (simp add: e)
qed

lemma getAll_empty: "QueryHistory_getAll this emptyStorage = Inr (JArr [])"
  by (simp add: QueryHistory_getAll_def getItem_def emptyStorage_def)

text \<open>
  C8: starting from an empty history, a sequence of \<open>add\<close> calls leaves the entries most
  recent first, cut to the first \<open>maxSize\<close>, so the stored list never exceeds \<open>maxSize\<close>; one
  \<open>add\<close> on a stored list puts the new entry in front and drops the last (oldest) entry when
  the list would be longer than \<open>maxSize\<close>.
\<close>

theorem QueryHistory_add_bounded:
  "(\<exists>store' h. QueryHistory_addAll this es emptyStorage = Inr store'
       \<and> QueryHistory_getAll this store' = Inr (JArr h)
       \<and> h = take (maxSize this) (rev (map (\<lambda>(q, t). historyEntry q t) es))
       \<and> length h \<le> maxSize this)
   \<and> (QueryHistory_getAll this store = Inr (JArr old) \<longrightarrow>
        (\<exists>store'. QueryHistory_add this q t store = Inr store'
           \<and> QueryHistory_getAll this store'
               = Inr (JArr (if length (historyEntry q t # old) > maxSize this
                            then butlast (historyEntry q t # old)
                            else historyEntry q t # old))))"
proof (intro conjI impI)
  from addAll_from [OF getAll_empty, of this es]
  show "\<exists>store' h. QueryHistory_addAll this es emptyStorage = Inr store'
       \<and> QueryHistory_getAll this store' = Inr (JArr h)
       \<and> h = take (maxSize this) (rev (map (\<lambda>(q, t). historyEntry q t) es))
       \<and> length h \<le> maxSize this"
    by auto
next
  assume "QueryHistory_getAll this store = Inr (JArr old)"
  from add_step [OF this, of q t] getAll_setItem
  show "\<exists>store'. QueryHistory_add this q t store = Inr store'
           \<and> QueryHistory_getAll this store'
               = Inr (JArr (if length (historyEntry q t # old) > maxSize this
                            then butlast (historyEntry q t # old)
                            else historyEntry q t # old))"
    by (simp add: less_Suc_eq_le)
qed

theorem QueryHistory_add_bounded_witness:
  "QueryHistory_getAll \<lparr>qh_storageKey = ''h'', maxSize = 1\<rparr>
      (emptyStorage(''h'' \<mapsto> Text (JArr [JStr ''old'']))) = Inr (JArr [JStr ''old''])
   \<and> (\<exists>store'. QueryHistory_add \<lparr>qh_storageKey = ''h'', maxSize = 1\<rparr> (JStr ''q'') ''t''
          (emptyStorage(''h'' \<mapsto> Text (JArr [JStr ''old'']))) = Inr store'
        \<and> QueryHistory_getAll \<lparr>qh_storageKey = ''h'', maxSize = 1\<rparr> store'
            = Inr (JArr [historyEntry (JStr ''q'') ''t'']))"
  using QueryHistory_add_bounded [of "\<lparr>qh_storageKey = ''h'', maxSize = 1\<rparr>" "[]"
      "emptyStorage(''h'' \<mapsto> Text (JArr [JStr ''old'']))" "[JStr ''old'']" "JStr ''q''" "''t''"]
  by (simp add: QueryHistory_getAll_def getItem_def)

text \<open>
  C9: for a stored string that is not valid JSON, and for an absent key, \<open>getAll\<close> of both
  stores returns the empty list; no stored content makes either \<open>getAll\<close> throw.
\<close>

theorem getAll_never_throws:
  "(getItem store (sq_storageKey s) = Some Malformed \<or> getItem store (sq_storageKey s) = None
      \<longrightarrow> SavedQueries_getAll s store = Inr (JArr []))
   \<and> (getItem store (qh_storageKey h) = Some Malformed \<or> getItem store (qh_storageKey h) = None
      \<longrightarrow> QueryHistory_getAll h store = Inr (JArr []))
   \<and> (\<exists>v. SavedQueries_getAll s store = Inr v)
   \<and> (\<exists>v. QueryHistory_getAll h store = Inr v)"
  by (auto simp: SavedQueries_getAll_def QueryHistory_getAll_def split: sum.splits)

theorem getAll_never_throws_witness:
  "SavedQueries_getAll \<lparr>sq_storageKey = ''s''\<rparr> (emptyStorage(''s'' \<mapsto> Malformed)) = Inr (JArr [])
   \<and> QueryHistory_getAll \<lparr>qh_storageKey = ''h'', maxSize = 3\<rparr> (emptyStorage(''s'' \<mapsto> Malformed)) = Inr (JArr [])"
  using getAll_never_throws [of "emptyStorage(''s'' \<mapsto> Malformed)" "\<lparr>sq_storageKey = ''s''\<rparr>"
      "\<lparr>qh_storageKey = ''h'', maxSize = 3\<rparr>"]
  by (simp add: getItem_def emptyStorage_def)

subsection \<open>UndoManager\<close>

lemma undoInv_new: "undoInv (newUndoManager m)"
  by (simp add: undoInv_def newUndoManager_def)

lemma redo_tail:
  assumes "undoInv this"
  shows "(if currentIndex this < int (length (history this)) - 1
          then slice0 (history this) (currentIndex this + 1) else history this)
         = take (nat (currentIndex this + 1)) (history this)"
  using assms by (auto simp: undoInv_def slice0_def)

lemma redo_tail_length:
  assumes "undoInv this"
  shows "int (length (take (nat (currentIndex this + 1)) (history this))) = currentIndex this + 1"
  using assms by (auto simp: undoInv_def min_def)

lemma pushState_cases:
  assumes "undoInv this"
  defines "h \<equiv> take (nat (currentIndex this + 1)) (history this)"
  shows "pushState s this =
          (if length h + 1 > maxHistory this
           then this\<lparr>history := tl (h @ [s])\<rparr>
           else this\<lparr>history := h @ [s], currentIndex := currentIndex this + 1\<rparr>)"
  unfolding pushState_def Let_def redo_tail [OF assms(1)] h_def by simp

lemma undoInv_pushState:
  assumes "undoInv this"
  shows "undoInv (pushState s this)"
proof -
  define h where "h = take (nat (currentIndex this + 1)) (history this)"
  have len: "int (length h) = currentIndex this + 1"
    unfolding h_def by (rule redo_tail_length [OF assms])
  have eq: "pushState s this =
          (if length h + 1 > maxHistory this
           then this\<lparr>history := tl (h @ [s])\<rparr>
           else this\<lparr>history := h @ [s], currentIndex := currentIndex this + 1\<rparr>)"
    unfolding h_def by (rule pushState_cases [OF assms])
  show ?thesis
  proof (cases "length h + 1 > maxHistory this")
    case True
    have "length (tl (h @ [s])) = length h" by simp
    moreover have "length h \<le> length (history this)"
      unfolding h_def by simp
    then have "length h \<le> maxHistory this"
      using assms unfolding undoInv_def by linarith
    ultimately show ?thesis using True len assms unfolding eq undoInv_def
      by simp
  next
    case False
    then show ?thesis using len assms unfolding eq undoInv_def by simp
  qed
qed

lemma undoInv_applyOp: "undoInv this \<Longrightarrow> undoInv (applyOp this op)"
proof (cases op)
  case (PushState s)
  assume "undoInv this"
  then show ?thesis using PushState by (simp add: undoInv_pushState)
next
  case Undo
  assume "undoInv this"
  then show ?thesis using Undo by (simp add: undoInv_def undo_def canUndo_def Let_def)
next
  case Redo
  assume "undoInv this"
  then show ?thesis using Redo by (simp add: undoInv_def redo_def canRedo_def Let_def)
next
  case Clear
  then show ?thesis by (simp add: undoInv_def clear_def)
qed

lemma undoInv_foldl: "undoInv this \<Longrightarrow> undoInv (foldl applyOp this ops)"
  by (induction ops arbitrary: this) (simp_all add: undoInv_applyOp)

lemma undoInv_runOps: "undoInv (runOps m ops)"
  unfolding runOps_def by (rule undoInv_foldl [OF undoInv_new])

lemma maxHistory_applyOp: "maxHistory (applyOp this op) = maxHistory this"
  by (cases op) (simp_all add: pushState_def undo_def redo_def clear_def Let_def)

lemma maxHistory_runOps: "maxHistory (runOps m ops) = m"
proof -
  have "maxHistory (foldl applyOp this ops) = maxHistory this" for this :: "'a UndoManager"
    by (induction ops arbitrary: this) (simp_all add: maxHistory_applyOp)
  then show ?thesis by (simp add: runOps_def newUndoManager_def)
qed

lemma pushState_keep:
  assumes "undoInv this"
    and "length (take (nat (currentIndex this + 1)) (history this)) + 1 \<le> maxHistory this"
  shows "history (pushState s this) = take (nat (currentIndex this + 1)) (history this) @ [s]
     \<and> currentIndex (pushState s this) = currentIndex this + 1
     \<and> history (pushState s this) ! nat (currentIndex (pushState s this)) = s"
proof -
  define h where "h = take (nat (currentIndex this + 1)) (history this)"
  have len: "int (length h) = currentIndex this + 1"
    unfolding h_def by (rule redo_tail_length [OF assms(1)])
  have nev: "\<not> length h + 1 > maxHistory this"
    unfolding h_def using assms(2) by linarith
  have eq: "pushState s this = this\<lparr>history := h @ [s], currentIndex := currentIndex this + 1\<rparr>"
    using pushState_cases [OF assms(1), of s] nev unfolding h_def by simp
  have n: "nat (currentIndex this + 1) = length h" using len by linarith
  have "(h @ [s]) ! length h = s" by (rule nth_append_length)
  then show ?thesis unfolding eq h_def [symmetric] using n by simp
qed

lemma pushState_evict:
  assumes "undoInv this"
    and "length (take (nat (currentIndex this + 1)) (history this)) + 1 > maxHistory this"
  shows "history (pushState s this) = tl (take (nat (currentIndex this + 1)) (history this) @ [s])
     \<and> currentIndex (pushState s this) = currentIndex this
     \<and> (0 < maxHistory this \<longrightarrow> 0 \<le> currentIndex this
          \<and> nat (currentIndex this) < length (history (pushState s this))
          \<and> history (pushState s this) ! nat (currentIndex this) = s)"
proof -
  define h where "h = take (nat (currentIndex this + 1)) (history this)"
  have len: "int (length h) = currentIndex this + 1"
    unfolding h_def by (rule redo_tail_length [OF assms(1)])
  have ev: "length h + 1 > maxHistory this"
    unfolding h_def by (rule assms(2))
  have eq: "pushState s this = this\<lparr>history := tl (h @ [s])\<rparr>"
    using pushState_cases [OF assms(1), of s] ev unfolding h_def by simp
  have "0 \<le> currentIndex this \<and> nat (currentIndex this) < length (tl (h @ [s]))
          \<and> tl (h @ [s]) ! nat (currentIndex this) = s" if m: "0 < maxHistory this"
  proof -
    have pos: "0 < length h" using ev m by linarith
    then have ne: "h \<noteq> []" by blast
    have ipos: "0 \<le> currentIndex this" using len pos by linarith
    have tl: "tl (h @ [s]) = tl h @ [s]" using ne by simp
    have n: "nat (currentIndex this) = length (tl h)" using len pos by simp
    have "(tl h @ [s]) ! length (tl h) = s" by (rule nth_append_length)
    then show ?thesis using ipos unfolding tl n by simp
  qed
  then show ?thesis unfolding eq h_def [symmetric] by simp
qed

text \<open>
  C10: from the initial state, every sequence of \<open>pushState\<close>, \<open>undo\<close>, \<open>redo\<close> and \<open>clear\<close>
  keeps \<open>-1 \<le> currentIndex \<le> history.length - 1\<close> and \<open>history.length \<le> maxHistory\<close>.
  \<open>pushState\<close> cuts the history after the current state and appends the new state; when
  that fits, \<open>currentIndex\<close> moves on to the new state; when it does not fit, the oldest
  state is dropped, \<open>currentIndex\<close> stays and addresses the new state.  The last holds for
  every \<open>maxHistory\<close> of at least one; the code constructs its manager with the default 50.
\<close>

theorem undoManager_invariant:
  fixes m :: nat and ops :: "'a undoOp list" and s :: 'a
  defines "this \<equiv> runOps m ops"
  defines "kept \<equiv> take (nat (currentIndex this + 1)) (history this)"
  shows "- 1 \<le> currentIndex this \<and> currentIndex this \<le> int (length (history this)) - 1
     \<and> length (history this) \<le> m
     \<and> (length kept + 1 \<le> m \<longrightarrow>
          history (pushState s this) = kept @ [s]
          \<and> currentIndex (pushState s this) = currentIndex this + 1
          \<and> history (pushState s this) ! nat (currentIndex (pushState s this)) = s)
     \<and> (length kept + 1 > m \<longrightarrow>
          history (pushState s this) = tl (kept @ [s])
          \<and> currentIndex (pushState s this) = currentIndex this
          \<and> (0 < m \<longrightarrow> 0 \<le> currentIndex (pushState s this)
               \<and> nat (currentIndex (pushState s this)) < length (history (pushState s this))
               \<and> history (pushState s this) ! nat (currentIndex (pushState s this)) = s))"
proof -
  have inv: "undoInv this" unfolding this_def by (rule undoInv_runOps)
  have m: "maxHistory this = m" unfolding this_def by (rule maxHistory_runOps)
  have a: "- 1 \<le> currentIndex this \<and> currentIndex this \<le> int (length (history this)) - 1
     \<and> length (history this) \<le> m"
    using inv m unfolding undoInv_def by simp
  have b: "history (pushState s this) = kept @ [s]
          \<and> currentIndex (pushState s this) = currentIndex this + 1
          \<and> history (pushState s this) ! nat (currentIndex (pushState s this)) = s"
    if "length kept + 1 \<le> m"
    using pushState_keep [OF inv, of s] that unfolding kept_def m by blast
  have c: "history (pushState s this) = tl (kept @ [s])
          \<and> currentIndex (pushState s this) = currentIndex this
          \<and> (0 < m \<longrightarrow> 0 \<le> currentIndex (pushState s this)
               \<and> nat (currentIndex (pushState s this)) < length (history (pushState s this))
               \<and> history (pushState s this) ! nat (currentIndex (pushState s this)) = s)"
    if "length kept + 1 > m"
  proof -
    have e: "history (pushState s this) = tl (kept @ [s])
       \<and> currentIndex (pushState s this) = currentIndex this
       \<and> (0 < m \<longrightarrow> 0 \<le> currentIndex this
            \<and> nat (currentIndex this) < length (history (pushState s this))
            \<and> history (pushState s this) ! nat (currentIndex this) = s)"
      using pushState_evict [OF inv, of s] that unfolding kept_def m by blast
    then have idx: "currentIndex (pushState s this) = currentIndex this" by blast
    show ?thesis unfolding idx using e by blast
  qed
  from a b c show ?thesis by blast
qed

theorem undoManager_invariant_witness:
  "history (pushState (3::nat) (runOps 2 [PushState 1, PushState 2])) = [2, 3]
   \<and> currentIndex (pushState (3::nat) (runOps 2 [PushState 1, PushState 2])) = 1
   \<and> history (pushState (3::nat) (runOps 2 [PushState 1, PushState 2, Undo])) = [1, 3]
   \<and> currentIndex (pushState (3::nat) (runOps 2 [PushState 1, PushState 2, Undo])) = 1"
  using undoManager_invariant [where m = 2 and ops = "[PushState 1, PushState 2]" and s = "3::nat"]
    undoManager_invariant [where m = 2 and ops = "[PushState 1, PushState 2, Undo]" and s = "3::nat"]
  by (simp add: runOps_def newUndoManager_def pushState_def undo_def canUndo_def
      currentState_def slice0_def Let_def)

text \<open>
  At the capacity the code configures, \<^verbatim>\<open>new UndoManager()\<close> with the default 50, an evicting
  \<open>pushState\<close> leaves \<open>currentIndex\<close> where it was, on the state just pushed.
\<close>

lemma undoManager_default_capacity:
  fixes ops :: "'a undoOp list" and s :: 'a
  assumes "length (take (nat (currentIndex (runOps 50 ops) + 1)) (history (runOps 50 ops))) + 1 > 50"
  shows "currentIndex (pushState s (runOps 50 ops)) = currentIndex (runOps 50 ops)
     \<and> 0 \<le> currentIndex (runOps 50 ops)
     \<and> nat (currentIndex (runOps 50 ops)) < length (history (pushState s (runOps 50 ops)))
     \<and> history (pushState s (runOps 50 ops)) ! nat (currentIndex (runOps 50 ops)) = s"
proof -
  have m: "maxHistory (runOps 50 ops) = 50" by (rule maxHistory_runOps)
  have "length (take (nat (currentIndex (runOps 50 ops) + 1)) (history (runOps 50 ops))) + 1
      > maxHistory (runOps 50 ops)"
    unfolding m by (rule assms)
  from pushState_evict [OF undoInv_runOps this, of s]
  have "currentIndex (pushState s (runOps 50 ops)) = currentIndex (runOps 50 ops)
     \<and> (0 < maxHistory (runOps 50 ops) \<longrightarrow> 0 \<le> currentIndex (runOps 50 ops)
          \<and> nat (currentIndex (runOps 50 ops)) < length (history (pushState s (runOps 50 ops)))
          \<and> history (pushState s (runOps 50 ops)) ! nat (currentIndex (runOps 50 ops)) = s)"
    by blast
  moreover have "0 < maxHistory (runOps 50 ops)" unfolding m by simp
  ultimately show ?thesis by blast
qed

end
